theory Spec2Isabelle
  imports Complex_Main "HOL-Library.Word"
begin

section \<open>Common ground: errors and floating-point values\<close>

text \<open>
  The repository is two notebooks: \<^verbatim>\<open>norm_concentration.ipynb\<close> (the class
  \<^verbatim>\<open>RandomVector\<close> and \<^verbatim>\<open>square_norm_expectation\<close>) and the worksheet on the
  approximate Caratheodory theorem (the cells computing \<^verbatim>\<open>coefficients\<close>, \<^verbatim>\<open>x\<close>,
  \<^verbatim>\<open>sample_from_distribution\<close>, \<^verbatim>\<open>diamT\<close> and the trial loop).

  Every exception the Python can raise on the paths modelled here is a value of
  \<open>error\<close>; a function that can raise returns \<open>error + 'a\<close>, with \<open>Inl\<close> the exception.
\<close>

datatype error = AssertionError | AttributeError | ZeroDivisionError | IndexError | ValueError

text \<open>
  A \<^verbatim>\<open>numpy.float64\<close> is a real number or the not-a-number value that
  \<^verbatim>\<open>np.sqrt\<close> returns on a negative argument. Rounding and overflow are not modelled:
  the finite values are the reals, and arithmetic on them is exact. Not-a-number is
  absorbing for every operation, as in IEEE 754.
\<close>

datatype npfloat = Fin real | NaN

instantiation npfloat :: comm_monoid_add
begin

definition zero_npfloat :: npfloat where
  "zero_npfloat = Fin 0"

definition plus_npfloat :: "npfloat \<Rightarrow> npfloat \<Rightarrow> npfloat" where
  "plus_npfloat a b = (case a of NaN \<Rightarrow> NaN | Fin u \<Rightarrow> (case b of NaN \<Rightarrow> NaN | Fin v \<Rightarrow> Fin (u + v)))"

instance
proof
  fix a b c :: npfloat
  show "a + b + c = a + (b + c)"
    by (simp add: plus_npfloat_def split: npfloat.splits)
  show "a + b = b + a"
    by (simp add: plus_npfloat_def split: npfloat.splits)
  show "0 + a = a"
    by (simp add: plus_npfloat_def zero_npfloat_def split: npfloat.splits)
qed

end

definition fmul :: "npfloat \<Rightarrow> npfloat \<Rightarrow> npfloat" where
  "fmul a b = (case a of NaN \<Rightarrow> NaN | Fin u \<Rightarrow> (case b of NaN \<Rightarrow> NaN | Fin v \<Rightarrow> Fin (u * v)))"

text \<open>\<^verbatim>\<open>t**2\<close> on a float.\<close>

definition fsquare :: "npfloat \<Rightarrow> npfloat" where
  "fsquare a = (case a of NaN \<Rightarrow> NaN | Fin u \<Rightarrow> Fin (u ^ 2))"

text \<open>
  \<^verbatim>\<open>a / n\<close> for a float \<open>a\<close> and a Python int \<open>n\<close> that is not zero (the callers
  test for zero first, where Python raises).
\<close>

definition fdiv_int :: "npfloat \<Rightarrow> int \<Rightarrow> npfloat" where
  "fdiv_int a n = (case a of NaN \<Rightarrow> NaN | Fin u \<Rightarrow> Fin (u / of_int n))"

text \<open>
  \<^verbatim>\<open>np.sqrt\<close> on a scalar: not-a-number (and a warning, no exception) on a
  negative argument.
\<close>

definition np_sqrt :: "real \<Rightarrow> npfloat" where
  "np_sqrt v = (if v < 0 then NaN else Fin (sqrt v))"

text \<open>Broadcasting a scalar over an array: \<^verbatim>\<open>s * a\<close> and \<^verbatim>\<open>s + a\<close>.\<close>

definition np_scalar_mul :: "npfloat \<Rightarrow> npfloat list \<Rightarrow> npfloat list" where
  "np_scalar_mul s a = map (fmul s) a"

definition np_scalar_add :: "npfloat \<Rightarrow> npfloat list \<Rightarrow> npfloat list" where
  "np_scalar_add s a = map (\<lambda>t. s + t) a"

section \<open>The notebook on the concentration of the norm\<close>

subsection \<open>The random source\<close>

text \<open>
  \<^verbatim>\<open>np.random.default_rng()\<close> makes a fresh generator. The generator is not code of
  the repository: it is a parameter of the model, the stream of variates it will
  produce, one stream per distribution. \<^verbatim>\<open>rng.standard_normal(size)\<close> and
  \<^verbatim>\<open>rng.wald(mean, scale, size)\<close> return an array of \<open>size\<close> variates, the first
  \<open>size\<close> of the stream.
\<close>

record Generator =
  standard_normal :: "nat \<Rightarrow> real"
  wald :: "real \<Rightarrow> real \<Rightarrow> nat \<Rightarrow> real"

definition rng_standard_normal :: "Generator \<Rightarrow> nat \<Rightarrow> real list" where
  "rng_standard_normal rng n = map (standard_normal rng) [0..<n]"

definition rng_wald :: "Generator \<Rightarrow> real \<Rightarrow> real \<Rightarrow> nat \<Rightarrow> real list" where
  "rng_wald rng mu scale n = map (wald rng mu scale) [0..<n]"

subsection \<open>The class RandomVector\<close>

text \<open>
  An object has an identity (what \<^verbatim>\<open>id\<close> returns; the class defines neither
  \<^verbatim>\<open>__eq__\<close> nor \<^verbatim>\<open>__hash__\<close>, so two objects are equal when they are the same
  object) and the two attributes the constructor sets.
\<close>

record RandomVector =
  ident :: nat
  dim :: int
  components :: "npfloat list"

text \<open>
  \<^verbatim>\<open>RandomVector.__init__(self, dim, distribution, mean, variance)\<close>. The first
  argument of the model is the identity of the new object, the second the generator
  that \<^verbatim>\<open>default_rng()\<close> returns. The assertion on \<open>dim\<close> raises AssertionError
  (its second half, \<^verbatim>\<open>type(dim) is int\<close>, is the type of \<open>d\<close>). The two tests on
  the name are two \<^verbatim>\<open>if\<close> statements, not an \<^verbatim>\<open>if\<close>/\<^verbatim>\<open>elif\<close>/\<^verbatim>\<open>else\<close>: when
  neither matches, the attribute \<^verbatim>\<open>components\<close> has not been assigned, and the last
  statement, which reads it, raises AttributeError.
\<close>

definition RandomVector_init ::
  "nat \<Rightarrow> Generator \<Rightarrow> int \<Rightarrow> string \<Rightarrow> real \<Rightarrow> real \<Rightarrow> error + RandomVector" where
  "RandomVector_init addr rng d distribution mu variance =
     (if \<not> (d > 0) then Inl AssertionError
      else
        let c0 = (if distribution = ''standard_normal''
                  then Some (map Fin (rng_standard_normal rng (nat d))) else None);
            c1 = (if distribution = ''wald''
                  then Some (map Fin (rng_wald rng 1 1 (nat d))) else c0);
            s = np_sqrt variance
        in (case c1 of
              None \<Rightarrow> Inl AttributeError
            | Some raw \<Rightarrow>
                Inr \<lparr>ident = addr, dim = d,
                     components = np_scalar_add (Fin mu) (np_scalar_mul s raw)\<rparr>))"

text \<open>
  The methods. Each returns its result and the object as the call leaves it.
  \<^verbatim>\<open>mean\<close> is \<^verbatim>\<open>self.components.mean()\<close>, which is not-a-number on an empty array;
  \<^verbatim>\<open>norm_squared\<close> is \<^verbatim>\<open>sum(t**2 for t in self.components)\<close>.
\<close>

definition mean :: "RandomVector \<Rightarrow> npfloat \<times> RandomVector" where
  "mean self =
     ((if components self = [] then NaN
       else fdiv_int (sum_list (components self)) (int (length (components self)))),
      self)"

definition norm_squared :: "RandomVector \<Rightarrow> npfloat \<times> RandomVector" where
  "norm_squared self = (sum_list (map fsquare (components self)), self)"

subsection \<open>square\_norm\_expectation\<close>

text \<open>
  \<^verbatim>\<open>frozenset(RandomVector(dim, distribution, mean, variance) for i in range(m))\<close>:
  the generator expression builds the objects one after the other, each is put into
  the set under construction, and the first constructor that raises ends the call.
  The set is a set of objects: two of its elements are the same element when they
  are the same object.
\<close>

fun frozenset_of :: "(nat \<Rightarrow> error + RandomVector) \<Rightarrow> nat list \<Rightarrow> RandomVector set
    \<Rightarrow> error + RandomVector set" where
  "frozenset_of mk [] acc = Inr acc"
| "frozenset_of mk (i # rest) acc =
     (case mk i of
        Inl e \<Rightarrow> Inl e
      | Inr v \<Rightarrow> frozenset_of mk rest (insert v acc))"

text \<open>
  \<^verbatim>\<open>square_norm_expectation(m, dim, distribution, mean, variance)\<close>. The first two
  arguments of the model are the identity and the generator of the \<open>i\<close>-th object
  the call builds. The tuple of the norms has one entry for each element of the set,
  in the order the set is iterated in; its sum does not depend on that order.
  \<^verbatim>\<open>sum(norms_squared)/m\<close> raises ZeroDivisionError when \<open>m\<close> is 0.
\<close>

definition square_norm_expectation ::
  "(nat \<Rightarrow> nat) \<Rightarrow> (nat \<Rightarrow> Generator) \<Rightarrow> int \<Rightarrow> int \<Rightarrow> string \<Rightarrow> real \<Rightarrow> real
    \<Rightarrow> error + npfloat" where
  "square_norm_expectation alloc rngs m d distribution mu variance =
     (case frozenset_of
             (\<lambda>i. RandomVector_init (alloc i) (rngs i) d distribution mu variance)
             [0..<nat m] {} of
        Inl e \<Rightarrow> Inl e
      | Inr vectors \<Rightarrow>
          let total = sum (\<lambda>x. fst (norm_squared x)) vectors
          in if m = 0 then Inl ZeroDivisionError else Inr (fdiv_int total m))"

section \<open>The worksheet on the approximate Caratheodory theorem\<close>

text \<open>
  The worksheet is a sequence of cells over the global variables \<^verbatim>\<open>T\<close> (the points,
  one-dimensional arrays), \<^verbatim>\<open>n\<close>, \<^verbatim>\<open>k\<close>, \<^verbatim>\<open>m = len(T)\<close>, \<^verbatim>\<open>coefficients\<close> and
  \<^verbatim>\<open>x\<close>. A cell is modelled as a function of the globals it reads and of the random
  values it draws.

  The points are built by \<^verbatim>\<open>np.array\<close> from lists of numbers: a list of Python ints
  gives an array of 64-bit integers, whose arithmetic wraps around, and a list with a
  float gives an array of floats. The cells that compute \<^verbatim>\<open>x\<close> and the samples
  combine the points with floats, so they work on the values of the entries as floats,
  as lists of reals (rounding is not modelled, and none of these operations makes a
  not-a-number out of finite values as long as \<open>k\<close> is positive, which every
  statement below assumes). The cell that computes \<^verbatim>\<open>diamT\<close> combines two points
  with each other, in the type of their entries.
\<close>

subsection \<open>Arrays\<close>

text \<open>
  An elementwise operation on two one-dimensional arrays: arrays of the same length
  are combined entry by entry, an array of length one is broadcast over the other,
  and any other pair of shapes raises ValueError.
\<close>

definition np_binop :: "('a \<Rightarrow> 'a \<Rightarrow> 'a) \<Rightarrow> 'a list \<Rightarrow> 'a list \<Rightarrow> error + 'a list" where
  "np_binop f a b =
     (if length a = length b then Inr (map2 f a b)
      else if length a = 1 then Inr (map (f (hd a)) b)
      else if length b = 1 then Inr (map (\<lambda>u. f u (hd b)) a)
      else Inl ValueError)"

text \<open>
  A point, as \<^verbatim>\<open>np.array\<close> builds it: an array of signed 64-bit integers (a word is
  read as a signed integer by \<open>sint\<close>, and \<open>+\<close>, \<open>-\<close>, \<open>*\<close> and powers of
  words wrap around as the machine's do) or an array of floats.
\<close>

datatype ndarray = Int64 "64 word list" | Float64 "real list"

text \<open>
  The values of the entries, as an operation with a float operand reads them: an
  integer is converted to the float of the same value (the rounding of the conversion,
  which starts above \<open>2\<^sup>5\<^sup>3\<close>, is not modelled).
\<close>

definition array_values :: "ndarray \<Rightarrow> real list" where
  "array_values a =
     (case a of
        Int64 u \<Rightarrow> map (\<lambda>t. real_of_int (sint t)) u
      | Float64 r \<Rightarrow> r)"

subsection \<open>The coefficients (stick breaking)\<close>

text \<open>
  \<^verbatim>\<open>np.random.uniform(low, high)\<close> is \<open>low + (high - low) * u\<close> for a variate \<open>u\<close>
  of the unit interval; the variates are a parameter of the model (\<open>us j\<close> is the one
  the \<open>j\<close>-th call uses), as is the permutation that \<^verbatim>\<open>np.random.permutation(m)\<close>
  returns.
\<close>

definition np_uniform :: "real \<Rightarrow> real \<Rightarrow> real \<Rightarrow> real" where
  "np_uniform low high u = low + (high - low) * u"

text \<open>
  The loop \<^verbatim>\<open>for i in perm[:-1]\<close>: a write at an index outside the list raises
  IndexError.
\<close>

fun stick_breaking :: "nat list \<Rightarrow> (nat \<Rightarrow> real) \<Rightarrow> nat \<Rightarrow> real list \<Rightarrow> real
    \<Rightarrow> error + (real list \<times> real)" where
  "stick_breaking [] us j coeffs accum = Inr (coeffs, accum)"
| "stick_breaking (i # rest) us j coeffs accum =
     (if i < length coeffs then
        let c = np_uniform 0 accum (us j)
        in stick_breaking rest us (Suc j) (coeffs[i := c]) (accum - c)
      else Inl IndexError)"

text \<open>
  The cell that computes \<^verbatim>\<open>coefficients\<close>: the list starts as \<open>m\<close> zeros, the
  accumulator as 1, and the last index of the permutation receives what is left.
  \<^verbatim>\<open>perm[-1]\<close> raises IndexError on an empty permutation.
\<close>

definition coefficients :: "nat \<Rightarrow> nat list \<Rightarrow> (nat \<Rightarrow> real) \<Rightarrow> error + real list" where
  "coefficients m perm us =
     (case stick_breaking (butlast perm) us 0 (replicate m 0) 1 of
        Inl e \<Rightarrow> Inl e
      | Inr (coeffs, accum) \<Rightarrow>
          if perm = [] then Inl IndexError
          else if last perm < length coeffs then Inr (coeffs[last perm := accum])
          else Inl IndexError)"

subsection \<open>The target point\<close>

text \<open>
  \<^verbatim>\<open>x = np.zeros(n)\<close>, then \<^verbatim>\<open>x = x + coefficients[i] * T[i]\<close> for \<open>i\<close> in
  \<^verbatim>\<open>range(m)\<close>, with \<open>m\<close> the length of \<open>T\<close>.
\<close>

fun construct_x_loop :: "real list list \<Rightarrow> real list \<Rightarrow> nat list \<Rightarrow> real list \<Rightarrow> error + real list" where
  "construct_x_loop T coeffs [] x = Inr x"
| "construct_x_loop T coeffs (i # rest) x =
     (if i < length coeffs \<and> i < length T then
        (case np_binop (+) x (map (\<lambda>t. coeffs ! i * t) (T ! i)) of
           Inl e \<Rightarrow> Inl e
         | Inr x' \<Rightarrow> construct_x_loop T coeffs rest x')
      else Inl IndexError)"

definition construct_x :: "nat \<Rightarrow> real list list \<Rightarrow> real list \<Rightarrow> error + real list" where
  "construct_x n T coeffs = construct_x_loop T coeffs [0..<length T] (replicate n 0)"

subsection \<open>sample\_from\_distribution\<close>

text \<open>The loop \<^verbatim>\<open>for vec in vectors: vec_sum = vec_sum + vec\<close>.\<close>

fun vec_sum_loop :: "real list list \<Rightarrow> real list \<Rightarrow> error + real list" where
  "vec_sum_loop [] vec_sum = Inr vec_sum"
| "vec_sum_loop (vec # rest) vec_sum =
     (case np_binop (+) vec_sum vec of
        Inl e \<Rightarrow> Inl e
      | Inr s \<Rightarrow> vec_sum_loop rest s)"

text \<open>
  \<^verbatim>\<open>sample_from_distribution()\<close>, as a function of the globals \<open>T\<close>, \<open>x\<close> and \<open>k\<close>
  and of \<open>vectors\<close>, the list that \<^verbatim>\<open>rand.choices(T, weights = coefficients, k = k)\<close>
  returns. On an empty \<open>T\<close> the call raises IndexError (\<^verbatim>\<open>rand.choices\<close> does, and
  so does \<^verbatim>\<open>T[0]\<close>). The distance is \<^verbatim>\<open>np.sum((x - vec_sum/k)**2)\<close>.
\<close>

definition sample_from_distribution ::
  "real list list \<Rightarrow> real list \<Rightarrow> nat \<Rightarrow> real list list \<Rightarrow> error + (real \<times> real list list)" where
  "sample_from_distribution T x k vectors =
     (case T of
        [] \<Rightarrow> Inl IndexError
      | t0 # _ \<Rightarrow>
          (case vec_sum_loop vectors (replicate (length t0) 0) of
             Inl e \<Rightarrow> Inl e
           | Inr vec_sum \<Rightarrow>
               (case np_binop (-) x (map (\<lambda>t. t / real k) vec_sum) of
                  Inl e \<Rightarrow> Inl e
                | Inr d \<Rightarrow> Inr (sum_list (map (\<lambda>t. t ^ 2) d), vectors))))"

subsection \<open>The diameter\<close>

text \<open>
  \<^verbatim>\<open>np.sqrt(np.sum((T[i] - T[j])**2))\<close>. On two arrays of integers the difference,
  the squares and their sum are computed in 64-bit integers and wrap around; the sum
  is converted to a float only for the square root, which is not-a-number when the
  wrapped sum is negative. When one of the arrays is an array of floats the other is
  converted and the computation is on floats.
\<close>

definition d_xixj :: "ndarray \<Rightarrow> ndarray \<Rightarrow> error + npfloat" where
  "d_xixj a b =
     (case (a, b) of
        (Int64 u, Int64 v) \<Rightarrow>
          (case np_binop (-) u v of
             Inl e \<Rightarrow> Inl e
           | Inr d \<Rightarrow> Inr (np_sqrt (real_of_int (sint (sum_list (map (\<lambda>t. t ^ 2) d))))))
      | _ \<Rightarrow>
          (case np_binop (-) (array_values a) (array_values b) of
             Inl e \<Rightarrow> Inl e
           | Inr d \<Rightarrow> Inr (np_sqrt (sum_list (map (\<lambda>t. t ^ 2) d)))))"

text \<open>
  The two nested loops, \<^verbatim>\<open>for i in range(len(T))\<close> and
  \<^verbatim>\<open>for j in range(i+1, len(T))\<close>, over the running maximum \<^verbatim>\<open>diamT\<close>, which
  starts at 0. The test \<^verbatim>\<open>d_xixj > diamT\<close> is false when \<^verbatim>\<open>d_xixj\<close> is
  not-a-number, so the running maximum is always a number.
\<close>

fun diamT_inner :: "ndarray list \<Rightarrow> nat \<Rightarrow> nat list \<Rightarrow> real \<Rightarrow> error + real" where
  "diamT_inner T i [] diam = Inr diam"
| "diamT_inner T i (j # rest) diam =
     (case d_xixj (T ! i) (T ! j) of
        Inl e \<Rightarrow> Inl e
      | Inr d \<Rightarrow>
          diamT_inner T i rest
            (case d of NaN \<Rightarrow> diam | Fin v \<Rightarrow> (if v > diam then v else diam)))"

fun diamT_outer :: "ndarray list \<Rightarrow> nat list \<Rightarrow> real \<Rightarrow> error + real" where
  "diamT_outer T [] diam = Inr diam"
| "diamT_outer T (i # rest) diam =
     (case diamT_inner T i [Suc i..<length T] diam of
        Inl e \<Rightarrow> Inl e
      | Inr d \<Rightarrow> diamT_outer T rest d)"

definition diamT :: "ndarray list \<Rightarrow> error + real" where
  "diamT T = diamT_outer T [0..<length T] 0"

subsection \<open>The trial loop\<close>

text \<open>
  \<^verbatim>\<open>bestVal\<close> starts as \<^verbatim>\<open>float("inf")\<close> and \<^verbatim>\<open>best\<close> as \<^verbatim>\<open>None\<close>; every finite
  float is less than infinity.
\<close>

datatype pyfloat = PosInf | Finite real

definition float_less :: "real \<Rightarrow> pyfloat \<Rightarrow> bool" where
  "float_less s b = (case b of PosInf \<Rightarrow> True | Finite v \<Rightarrow> s < v)"

record trial_state =
  samples :: "real list"
  bestVal :: pyfloat
  best :: "real list list option"

text \<open>
  One iteration: \<open>choice\<close> is what \<^verbatim>\<open>rand.choices\<close> returns in the call of
  \<^verbatim>\<open>sample_from_distribution\<close> that the iteration makes.
\<close>

definition trial_step ::
  "real list list \<Rightarrow> real list \<Rightarrow> nat \<Rightarrow> trial_state \<Rightarrow> real list list \<Rightarrow> error + trial_state" where
  "trial_step T x k st choice =
     (case sample_from_distribution T x k choice of
        Inl e \<Rightarrow> Inl e
      | Inr (sample, vectors) \<Rightarrow>
          let st' = (if float_less sample (bestVal st)
                     then st\<lparr>best := Some vectors, bestVal := Finite sample\<rparr>
                     else st)
          in Inr (st'\<lparr>samples := samples st' @ [sample]\<rparr>))"

fun trial_loop ::
  "real list list \<Rightarrow> real list \<Rightarrow> nat \<Rightarrow> trial_state \<Rightarrow> real list list list \<Rightarrow> error + trial_state" where
  "trial_loop T x k st [] = Inr st"
| "trial_loop T x k st (choice # rest) =
     (case trial_step T x k st choice of
        Inl e \<Rightarrow> Inl e
      | Inr st' \<Rightarrow> trial_loop T x k st' rest)"

text \<open>
  The cell: \<^verbatim>\<open>for i in range(numSamples)\<close>, from the empty list of samples;
  \<open>choices i\<close> is the draw of iteration \<open>i\<close>.
\<close>

definition trials ::
  "real list list \<Rightarrow> real list \<Rightarrow> nat \<Rightarrow> nat \<Rightarrow> (nat \<Rightarrow> real list list) \<Rightarrow> error + trial_state" where
  "trials T x k numSamples choices =
     trial_loop T x k \<lparr>samples = [], bestVal = PosInf, best = None\<rparr> (map choices [0..<numSamples])"

subsection \<open>The distribution of the draws\<close>

text \<open>
  \<^verbatim>\<open>rand.choices(T, weights = w, k = k)\<close> is the standard library's, not code of the
  repository. Its contract, for weights that sum to 1: the list it returns has \<open>k\<close>
  elements, drawn independently, and each of them is \<open>T[i]\<close> with probability
  \<open>w[i]\<close>. So the draws that can occur are the lists of \<open>k\<close> points of positive
  weight, and the expectation of a function \<open>f\<close> of the list is the sum of the values
  of \<open>f\<close> weighted by the probabilities of the lists.
\<close>

definition support :: "real list list \<Rightarrow> real list \<Rightarrow> real list list" where
  "support T w = map (\<lambda>i. T ! i) (filter (\<lambda>i. w ! i > 0) [0..<length T])"

definition possible_draws :: "real list list \<Rightarrow> real list \<Rightarrow> nat \<Rightarrow> real list list list" where
  "possible_draws T w k = List.n_lists k (support T w)"

fun expectation :: "real list list \<Rightarrow> real list \<Rightarrow> nat \<Rightarrow> (real list list \<Rightarrow> real) \<Rightarrow> real" where
  "expectation T w 0 f = f []"
| "expectation T w (Suc k) f =
     (\<Sum>i\<leftarrow>[0..<length T]. w ! i * expectation T w k (\<lambda>vs. f (T ! i # vs)))"

subsection \<open>Distances\<close>

text \<open>
  The squared Euclidean distance of two points with the same number of coordinates:
  the notion in which the specification states what the worksheet computes.
\<close>

definition squared_distance :: "real list \<Rightarrow> real list \<Rightarrow> real" where
  "squared_distance a b = (\<Sum>c\<leftarrow>[0..<length a]. (a ! c - b ! c) ^ 2)"

text \<open>
  The diameter of a list of points, in the specification's words: the largest
  Euclidean distance between two of them (0 when there are fewer than two).
\<close>

definition diameter :: "real list list \<Rightarrow> real" where
  "diameter P =
     Max (set (0 # concat (map (\<lambda>i. map (\<lambda>j. sqrt (squared_distance (P ! i) (P ! j)))
                                       [Suc i..<length P]) [0..<length P])))"

text \<open>
  The integer arithmetic of \<^verbatim>\<open>d_xixj\<close> on two arrays of integers is exact when the
  sum of the squares of the differences of their entries, as an integer, is below
  \<open>2\<^sup>6\<^sup>3\<close>; on any other pair of arrays there is no integer arithmetic.
\<close>

definition int64_exact :: "ndarray \<Rightarrow> ndarray \<Rightarrow> bool" where
  "int64_exact a b =
     (case (a, b) of
        (Int64 u, Int64 v) \<Rightarrow> (\<Sum>(p, q)\<leftarrow>zip u v. (sint p - sint q) ^ 2) < 2 ^ 63
      | _ \<Rightarrow> True)"

section \<open>Concrete inputs\<close>

text \<open>Generators with known streams, for the examples below.\<close>

definition rng0 :: Generator where
  "rng0 = \<lparr>standard_normal = (\<lambda>j. real j + 1), wald = (\<lambda>a b j. a + b + real j)\<rparr>"

definition rngs0 :: "nat \<Rightarrow> Generator" where
  "rngs0 i = \<lparr>standard_normal = (\<lambda>j. real i + 1), wald = (\<lambda>a b j. a + b + real i)\<rparr>"

text \<open>Three draws of one point each: the point 1 first, then the point 0 twice.\<close>

definition choices0 :: "nat \<Rightarrow> real list list" where
  "choices0 i = (if i = 0 then [[1]] else [[0]])"

section \<open>Properties of the notebook on the concentration of the norm\<close>

subsection \<open>The constructor\<close>

lemma length_np_affine: "length (np_scalar_add a (np_scalar_mul s xs)) = length xs"
  by (simp add: np_scalar_add_def np_scalar_mul_def)

lemma np_affine_NaN: "np_scalar_add (Fin mu) (np_scalar_mul NaN a) = replicate (length a) NaN"
  by (induction a) (simp_all add: np_scalar_add_def np_scalar_mul_def fmul_def plus_npfloat_def)

lemma RandomVector_init_recognized:
  assumes "d > 0" and "distribution = ''standard_normal'' \<or> distribution = ''wald''"
  shows "\<exists>cs. length cs = nat d \<and>
     RandomVector_init addr rng d distribution mu variance =
       Inr \<lparr>ident = addr, dim = d, components = cs\<rparr>"
  using assms
  by (auto simp add: RandomVector_init_def length_np_affine rng_standard_normal_def rng_wald_def)

text \<open>
  Claim C1, as the specification states it: with a name other than
  \<^verbatim>\<open>standard_normal\<close> and \<^verbatim>\<open>wald\<close> the constructor completes silently and leaves
  the components unset. It does not: with dimension 1, the name \<^verbatim>\<open>uniform\<close>, mean 0
  and variance 1 the call raises AttributeError, and no object is returned.
\<close>

theorem C1_counterexample:
  "RandomVector_init 0 rng0 1 ''uniform'' 0 1 = Inl AttributeError"
  by (simp add: RandomVector_init_def)

text \<open>
  Claim C1, amended: for every dimension greater than 0, every mean and every
  variance, the constructor called with a name other than \<^verbatim>\<open>standard_normal\<close> and
  \<^verbatim>\<open>wald\<close> raises AttributeError (the last statement reads the attribute
  \<^verbatim>\<open>components\<close>, which no branch has assigned); it returns no vector.
\<close>

theorem C1_unrecognized_name_raises:
  assumes "d > 0" and "distribution \<noteq> ''standard_normal''" and "distribution \<noteq> ''wald''"
  shows "RandomVector_init addr rng d distribution mu variance = Inl AttributeError"
  using assms by (simp add: RandomVector_init_def)

theorem C1_unrecognized_name_raises_witness:
  "(3::int) > 0 \<and> ''exponential'' \<noteq> ''standard_normal'' \<and> ''exponential'' \<noteq> ''wald'' \<and>
   RandomVector_init 7 rng0 3 ''exponential'' 2 5 = Inl AttributeError"
  using C1_unrecognized_name_raises [of 3 "''exponential''" 7 rng0 2 5] by simp

text \<open>
  Claim C6: for every dimension greater than 0, each of the two recognized names and
  every mean and variance, the constructor returns a vector whose number of
  components is its dimension, the dimension asked for; the methods \<^verbatim>\<open>mean\<close> and
  \<^verbatim>\<open>norm_squared\<close> leave the object as it is, so the invariant holds after them.
\<close>

theorem C6_length_is_dimension:
  assumes "d > 0" and "distribution = ''standard_normal'' \<or> distribution = ''wald''"
  shows "\<exists>v. RandomVector_init addr rng d distribution mu variance = Inr v \<and> dim v = d \<and>
     int (length (components v)) = dim v \<and>
     snd (mean v) = v \<and> snd (norm_squared v) = v \<and>
     int (length (components (snd (mean v)))) = dim (snd (mean v)) \<and>
     int (length (components (snd (norm_squared v)))) = dim (snd (norm_squared v))"
proof -
  obtain cs where cs: "length cs = nat d"
    "RandomVector_init addr rng d distribution mu variance =
       Inr \<lparr>ident = addr, dim = d, components = cs\<rparr>"
    using RandomVector_init_recognized [OF assms] by blast
  show ?thesis
    using cs assms(1) by (simp add: mean_def norm_squared_def)
qed

theorem C6_length_is_dimension_witness:
  "\<exists>v. RandomVector_init 0 rng0 3 ''wald'' 2 9 = Inr v \<and> dim v = 3 \<and>
     int (length (components v)) = dim v \<and>
     snd (mean v) = v \<and> snd (norm_squared v) = v \<and>
     int (length (components (snd (mean v)))) = dim (snd (mean v)) \<and>
     int (length (components (snd (norm_squared v)))) = dim (snd (norm_squared v))"
  using C6_length_is_dimension [of 3 "''wald''" 0 rng0 2 9] by simp

text \<open>
  Claim C7: for every dimension greater than 0, every mean and every variance that
  is not negative, the components are the first \<open>dim\<close> variates of the base
  distribution (the standard normal; the Wald distribution with both parameters 1),
  each mapped to \<open>mean + sqrt variance * raw\<close>. (That the variates are independent
  and identically distributed is the generator's contract, and not a statement
  about this code.)
\<close>

theorem C7_components_affine:
  assumes "d > 0" and "variance \<ge> 0"
  shows "RandomVector_init addr rng d ''standard_normal'' mu variance =
      Inr \<lparr>ident = addr, dim = d,
           components = map (\<lambda>j. Fin (mu + sqrt variance * standard_normal rng j)) [0..<nat d]\<rparr>
    \<and> RandomVector_init addr rng d ''wald'' mu variance =
      Inr \<lparr>ident = addr, dim = d,
           components = map (\<lambda>j. Fin (mu + sqrt variance * wald rng 1 1 j)) [0..<nat d]\<rparr>"
  using assms
  by (simp add: RandomVector_init_def np_sqrt_def np_scalar_add_def np_scalar_mul_def
      rng_standard_normal_def rng_wald_def fmul_def plus_npfloat_def)

theorem C7_components_affine_witness:
  "RandomVector_init 4 rng0 2 ''standard_normal'' 1 4 =
       Inr \<lparr>ident = 4, dim = 2, components = [Fin 3, Fin 5]\<rparr>
   \<and> RandomVector_init 4 rng0 2 ''wald'' 1 4 =
       Inr \<lparr>ident = 4, dim = 2, components = [Fin 5, Fin 7]\<rparr>"
  using C7_components_affine [of 2 4 4 rng0 1] by (simp add: rng0_def upt_rec nat_numeral)

text \<open>
  Claim C8, as the specification states it: the constructor called with a negative
  variance fails with an error. It does not: with dimension 2, the standard normal,
  mean 0 and variance -1 the call returns a vector, whose two components are
  not-a-number.
\<close>

theorem C8_counterexample:
  "RandomVector_init 0 rng0 2 ''standard_normal'' 0 (- 1) =
      Inr \<lparr>ident = 0, dim = 2, components = [NaN, NaN]\<rparr>"
  by (simp add: RandomVector_init_def np_sqrt_def np_scalar_add_def np_scalar_mul_def
      rng_standard_normal_def rng_wald_def fmul_def plus_npfloat_def upt_rec nat_numeral)

text \<open>
  Claim C8, amended: the constructor does not validate the variance. Called with a
  negative variance, a dimension greater than 0 and a recognized name it signals no
  error and returns a vector of the dimension asked for, every component of which
  is not-a-number (the square root of the negative variance).
\<close>

theorem C8_negative_variance_completes:
  assumes "d > 0" and "variance < 0"
    and "distribution = ''standard_normal'' \<or> distribution = ''wald''"
  shows "RandomVector_init addr rng d distribution mu variance =
      Inr \<lparr>ident = addr, dim = d, components = replicate (nat d) NaN\<rparr>"
proof -
  have s: "np_sqrt variance = NaN"
    using assms(2) by (simp add: np_sqrt_def)
  from assms(3) show ?thesis
  proof
    assume "distribution = ''standard_normal''"
    then show ?thesis
      using assms(1) by (simp add: RandomVector_init_def s np_affine_NaN rng_standard_normal_def)
  next
    assume "distribution = ''wald''"
    then show ?thesis
      using assms(1) by (simp add: RandomVector_init_def s np_affine_NaN rng_wald_def)
  qed
qed

theorem C8_negative_variance_completes_witness:
  "RandomVector_init 1 rng0 3 ''wald'' 10 (- 4) =
      Inr \<lparr>ident = 1, dim = 3, components = [NaN, NaN, NaN]\<rparr>"
  using C8_negative_variance_completes [of 3 "- 4" "''wald''" 1 rng0 10]
  by (simp add: numeral_3_eq_3)

subsection \<open>square\_norm\_expectation\<close>

lemma frozenset_of_all_constructed:
  assumes "\<forall>i\<in>set js. mk i = Inr (f i)"
  shows "frozenset_of mk js acc = Inr (acc \<union> f ` set js)"
  using assms by (induction js arbitrary: acc) auto

text \<open>
  Claim C4: for every \<open>m\<close> of at least 1, every dimension greater than 0 and each
  recognized name, \<^verbatim>\<open>square_norm_expectation\<close> builds \<open>m\<close> vectors and returns the
  sum of their \<open>m\<close> squared norms divided by \<open>m\<close>. The objects alive at the same
  time have different identities (\<open>alloc\<close> is injective on the \<open>m\<close> objects built),
  so the set holds all of them: none is lost.
\<close>

theorem C4_mean_of_squared_norms:
  assumes "m \<ge> 1" and "d > 0"
    and "distribution = ''standard_normal'' \<or> distribution = ''wald''"
    and "inj_on alloc {..<nat m}"
  shows "\<exists>vs. length vs = nat m \<and>
     (\<forall>i<nat m. RandomVector_init (alloc i) (rngs i) d distribution mu variance = Inr (vs ! i)) \<and>
     square_norm_expectation alloc rngs m d distribution mu variance =
       Inr (fdiv_int (sum_list (map (\<lambda>x. fst (norm_squared x)) vs)) m)"
proof -
  define mk where "mk i = RandomVector_init (alloc i) (rngs i) d distribution mu variance" for i
  have "\<forall>i. \<exists>cs. mk i = Inr \<lparr>ident = alloc i, dim = d, components = cs\<rparr>"
    unfolding mk_def using RandomVector_init_recognized [OF assms(2) assms(3)] by blast
  then obtain cf where cf: "\<And>i. mk i = Inr \<lparr>ident = alloc i, dim = d, components = cf i\<rparr>"
    by metis
  define f where "f i = \<lparr>ident = alloc i, dim = d, components = cf i\<rparr>" for i
  define vs where "vs = map f [0..<nat m]"
  have mkf: "\<And>i. mk i = Inr (f i)"
    by (simp add: cf f_def)
  have len: "length vs = nat m"
    by (simp add: vs_def)
  have nth: "\<forall>i<nat m. mk i = Inr (vs ! i)"
    by (simp add: vs_def mkf)
  have "inj_on f {..<nat m}"
  proof (rule inj_onI)
    fix a b assume "a \<in> {..<nat m}" "b \<in> {..<nat m}" "f a = f b"
    then have "alloc a = alloc b" by (simp add: f_def)
    with assms(4) \<open>a \<in> {..<nat m}\<close> \<open>b \<in> {..<nat m}\<close> show "a = b"
      by (simp add: inj_on_def)
  qed
  then have dist: "distinct vs"
    by (simp add: vs_def distinct_map atLeast_upt [symmetric] del: atLeast_upt set_upt)
  have fs: "frozenset_of mk [0..<nat m] {} = Inr (set vs)"
    using frozenset_of_all_constructed [of "[0..<nat m]" mk f "{}"] mkf by (simp add: vs_def)
  have total: "sum (\<lambda>x. fst (norm_squared x)) (set vs) = sum_list (map (\<lambda>x. fst (norm_squared x)) vs)"
    using dist by (simp add: sum_list_distinct_conv_sum_set)
  have "square_norm_expectation alloc rngs m d distribution mu variance =
       Inr (fdiv_int (sum_list (map (\<lambda>x. fst (norm_squared x)) vs)) m)"
    using assms(1) fs total
    by (simp add: square_norm_expectation_def mk_def [abs_def, symmetric])
  with len nth show ?thesis
    unfolding mk_def by blast
qed

text \<open>
  At \<open>m = 2\<close> in dimension 1, with the standard normal variates 1 and 2, mean 0 and
  variance 1: the squared norms are 1 and 4, and the result is 5/2.
\<close>

theorem C4_mean_of_squared_norms_witness:
  "square_norm_expectation (\<lambda>i. i + 100) rngs0 2 1 ''standard_normal'' 0 1 = Inr (Fin (5 / 2))"
proof -
  have inj: "inj_on (\<lambda>i. i + 100) {..<nat 2}"
    by (simp add: inj_on_def)
  obtain vs where vs: "length vs = nat 2"
    "\<forall>i<nat 2. RandomVector_init (i + 100) (rngs0 i) 1 ''standard_normal'' 0 1 = Inr (vs ! i)"
    "square_norm_expectation (\<lambda>i. i + 100) rngs0 2 1 ''standard_normal'' 0 1 =
       Inr (fdiv_int (sum_list (map (\<lambda>x. fst (norm_squared x)) vs)) 2)"
    using C4_mean_of_squared_norms [of 2 1 "''standard_normal''" "\<lambda>i. i + 100" rngs0 0 1] inj
    by auto
  have v0: "vs ! 0 = \<lparr>ident = 100, dim = 1, components = [Fin 1]\<rparr>"
    using vs(2) [rule_format, of 0]
    by (simp add: RandomVector_init_def rngs0_def rng_standard_normal_def np_sqrt_def
        np_scalar_add_def np_scalar_mul_def fmul_def plus_npfloat_def)
  have v1: "vs ! 1 = \<lparr>ident = 101, dim = 1, components = [Fin 2]\<rparr>"
    using vs(2) [rule_format, of 1]
    by (simp add: RandomVector_init_def rngs0_def rng_standard_normal_def np_sqrt_def
        np_scalar_add_def np_scalar_mul_def fmul_def plus_npfloat_def)
  from vs(1) have "vs = [vs ! 0, vs ! 1]"
    by (cases vs; cases "tl vs"; simp)
  then have "vs = [\<lparr>ident = 100, dim = 1, components = [Fin 1]\<rparr>,
                   \<lparr>ident = 101, dim = 1, components = [Fin 2]\<rparr>]"
    using v0 v1 by simp
  with vs(3) show ?thesis
    by (simp add: norm_squared_def fsquare_def plus_npfloat_def fdiv_int_def zero_npfloat_def)
qed

text \<open>
  Claim C10: \<^verbatim>\<open>square_norm_expectation\<close> called with \<open>m = 0\<close> is rejected by no
  validation (no constructor runs, so not even the assertion on the dimension is
  reached): the set of vectors is empty, and the division by \<open>m\<close> raises
  ZeroDivisionError.
\<close>

theorem C10_zero_samples_division_error:
  "frozenset_of (\<lambda>i. RandomVector_init (alloc i) (rngs i) d distribution mu variance)
       [0..<nat 0] {} = Inr {}
   \<and> square_norm_expectation alloc rngs 0 d distribution mu variance = Inl ZeroDivisionError"
  by (simp add: square_norm_expectation_def)

section \<open>Properties of the worksheet on the approximate Caratheodory theorem\<close>

subsection \<open>The coefficients\<close>

lemma sum_list_update_real:
  fixes xs :: "real list"
  shows "i < length xs \<Longrightarrow> sum_list (xs[i := v]) = sum_list xs - xs ! i + v"
proof (induction xs arbitrary: i)
  case Nil
  then show ?case by simp
next
  case (Cons a xs)
  then show ?case by (cases i) simp_all
qed

lemma np_uniform_range:
  assumes "0 \<le> accum" and "0 \<le> u" and "u \<le> 1"
  shows "0 \<le> np_uniform 0 accum u" and "np_uniform 0 accum u \<le> accum"
proof -
  show "0 \<le> np_uniform 0 accum u"
    using assms by (simp add: np_uniform_def)
  have "accum * u \<le> accum * 1"
    using assms by (intro mult_left_mono) simp_all
  then show "np_uniform 0 accum u \<le> accum"
    by (simp add: np_uniform_def)
qed

lemma stick_breaking_invariant:
  assumes "distinct rest"
    and "\<forall>i\<in>set rest. i < length coeffs \<and> coeffs ! i = 0"
    and "0 \<le> accum"
    and "\<forall>c\<in>set coeffs. 0 \<le> c"
    and "\<forall>q<length rest. 0 \<le> us (j + q) \<and> us (j + q) \<le> 1"
  shows "\<exists>cs a. stick_breaking rest us j coeffs accum = Inr (cs, a) \<and>
           length cs = length coeffs \<and> 0 \<le> a \<and> (\<forall>c\<in>set cs. 0 \<le> c) \<and>
           sum_list cs + a = sum_list coeffs + accum \<and>
           (\<forall>i<length coeffs. i \<notin> set rest \<longrightarrow> cs ! i = coeffs ! i)"
  using assms
proof (induction rest arbitrary: j coeffs accum)
  case Nil
  then show ?case by simp
next
  case (Cons i rest)
  define c where "c = np_uniform 0 accum (us j)"
  have i: "i < length coeffs" "coeffs ! i = 0" "i \<notin> set rest" "distinct rest"
    using Cons.prems(1,2) by simp_all
  have u: "0 \<le> us j" "us j \<le> 1"
    using Cons.prems(5) [rule_format, of 0] by simp_all
  have c: "0 \<le> c" "c \<le> accum"
    unfolding c_def using np_uniform_range [OF Cons.prems(3) u] by simp_all
  have p2: "\<forall>i'\<in>set rest. i' < length (coeffs[i := c]) \<and> coeffs[i := c] ! i' = 0"
    using Cons.prems(2) i(3) by (auto simp: nth_list_update)
  have p3: "0 \<le> accum - c"
    using c by simp
  have p4: "\<forall>t\<in>set (coeffs[i := c]). 0 \<le> t"
    using Cons.prems(4) c(1) set_update_subset_insert [of coeffs i c] by auto
  have p5: "\<forall>q<length rest. 0 \<le> us (Suc j + q) \<and> us (Suc j + q) \<le> 1"
    using Cons.prems(5) by (metis add_Suc_shift length_Cons not_less_eq)
  obtain cs a where r: "stick_breaking rest us (Suc j) (coeffs[i := c]) (accum - c) = Inr (cs, a)"
    "length cs = length (coeffs[i := c])" "0 \<le> a" "\<forall>t\<in>set cs. 0 \<le> t"
    "sum_list cs + a = sum_list (coeffs[i := c]) + (accum - c)"
    "\<forall>i'<length (coeffs[i := c]). i' \<notin> set rest \<longrightarrow> cs ! i' = coeffs[i := c] ! i'"
    using Cons.IH [OF i(4) p2 p3 p4 p5] by blast
  have s: "sum_list (coeffs[i := c]) + (accum - c) = sum_list coeffs + accum"
    using i(1,2) by (simp add: sum_list_update_real)
  have "stick_breaking (i # rest) us j coeffs accum = Inr (cs, a)"
    using i(1) r(1) by (simp add: c_def)
  moreover have "\<forall>i'<length coeffs. i' \<notin> set (i # rest) \<longrightarrow> cs ! i' = coeffs ! i'"
    using r(6) by (auto simp: nth_list_update)
  ultimately show ?case
    using r(2,3,4,5) s by simp
qed

text \<open>
  Claim C3: for every \<open>m\<close> of at least 1, every permutation \<open>perm\<close> of the indices
  below \<open>m\<close> and every sequence of variates of the unit interval, the cell returns
  \<open>m\<close> coefficients, none of them negative, whose sum is 1. Arithmetic is exact
  here, so the sum is 1 itself, which is within the tolerance of the specification.
\<close>

theorem C3_simplex_weights:
  assumes "m \<ge> 1" and "distinct perm" and "set perm = {..<m}"
    and "\<forall>j<m - 1. 0 \<le> us j \<and> us j \<le> 1"
  shows "\<exists>cs. coefficients m perm us = Inr cs \<and> length cs = m \<and> (\<forall>c\<in>set cs. 0 \<le> c) \<and>
           sum_list cs = 1 \<and> \<bar>sum_list cs - 1\<bar> < 1 / 10 ^ 9"
proof -
  have len: "length perm = m"
    using assms(2,3) distinct_card [of perm] by simp
  then have ne: "perm \<noteq> []"
    using assms(1) by auto
  then have split: "perm = butlast perm @ [last perm]"
    by simp
  have d: "distinct (butlast perm)"
    using assms(2) by (simp add: distinct_butlast)
  have lastnot: "last perm \<notin> set (butlast perm)"
    using assms(2) split by (metis distinct_append disjoint_iff list.set_intros(1) distinct.simps(2) not_distinct_conv_prefix)
  have lastlt: "last perm < m"
    using assms(3) ne last_in_set by blast
  have inb: "\<forall>i\<in>set (butlast perm). i < length (replicate m (0::real)) \<and> replicate m (0::real) ! i = 0"
    using assms(3) in_set_butlastD by fastforce
  have us: "\<forall>q<length (butlast perm). 0 \<le> us (0 + q) \<and> us (0 + q) \<le> 1"
    using assms(4) len by simp
  have a1: "0 \<le> (1::real)"
    by simp
  have nn0: "\<forall>c\<in>set (replicate m (0::real)). 0 \<le> c"
    by simp
  obtain cs a where r: "stick_breaking (butlast perm) us 0 (replicate m 0) 1 = Inr (cs, a)"
    "length cs = length (replicate m (0::real))" "0 \<le> a" "\<forall>t\<in>set cs. 0 \<le> t"
    "sum_list cs + a = sum_list (replicate m (0::real)) + 1"
    "\<forall>i<length (replicate m (0::real)). i \<notin> set (butlast perm) \<longrightarrow> cs ! i = replicate m (0::real) ! i"
    using stick_breaking_invariant [OF d inb a1 nn0 us] by blast
  have lencs: "length cs = m"
    using r(2) by simp
  have z: "cs ! last perm = 0"
    using r(6) lastlt lastnot by simp
  have res: "coefficients m perm us = Inr (cs[last perm := a])"
    using r(1) ne lastlt lencs by (simp add: coefficients_def)
  have nn: "\<forall>c\<in>set (cs[last perm := a]). 0 \<le> c"
    using r(3,4) set_update_subset_insert [of cs "last perm" a] by auto
  have "sum_list (cs[last perm := a]) = sum_list cs + a"
    using lastlt lencs z by (simp add: sum_list_update_real)
  also have "\<dots> = 1"
    using r(5) by (simp add: sum_list_replicate)
  finally have one: "sum_list (cs[last perm := a]) = 1" .
  show ?thesis
    using res nn one lencs by simp
qed

text \<open>
  With three points, the permutation 2, 0, 1 and every variate 1/2: the coefficients
  are 1/4, 1/4 and 1/2.
\<close>

theorem C3_simplex_weights_witness:
  "coefficients 3 [2, 0, 1] (\<lambda>j. 1 / 2) = Inr [1 / 4, 1 / 4, 1 / 2]"
proof -
  have h: "set [2, 0, 1] = {..<3::nat}"
    by auto
  obtain cs where cs: "coefficients 3 [2, 0, 1] (\<lambda>j. 1 / 2) = Inr cs" "length cs = 3"
    "sum_list cs = 1"
    using C3_simplex_weights [of 3 "[2, 0, 1]" "\<lambda>j. 1 / 2"] h by auto
  have "coefficients 3 [2, 0, 1] (\<lambda>j. 1 / 2) = Inr [1 / 4, 1 / 4, 1 / 2]"
    by (simp add: coefficients_def np_uniform_def numeral_3_eq_3 Let_def)
  with cs show ?thesis
    by simp
qed

subsection \<open>The value of a sample\<close>

lemma np_binop_same_length:
  "length a = length b \<Longrightarrow> np_binop f a b = Inr (map2 f a b)"
  by (simp add: np_binop_def)

lemma map2_nth:
  assumes "length a = n" and "length b = n"
  shows "map2 f a b = map (\<lambda>c. f (a ! c) (b ! c)) [0..<n]"
  using assms by (intro nth_equalityI) simp_all

lemma vec_sum_loop_nth:
  assumes "\<forall>v\<in>set vs. length v = n" and "length acc = n"
  shows "vec_sum_loop vs acc = Inr (map (\<lambda>c. acc ! c + (\<Sum>v\<leftarrow>vs. v ! c)) [0..<n])"
  using assms
proof (induction vs arbitrary: acc)
  case Nil
  then have "map ((!) acc) [0..<n] = acc"
    using map_nth [of acc] by simp
  then show ?case by simp
next
  case (Cons v vs)
  have lv: "length v = n"
    using Cons.prems(1) by simp
  have step: "np_binop (+) acc v = Inr (map (\<lambda>c. acc ! c + v ! c) [0..<n])"
    using np_binop_same_length [of acc v "(+)"] map2_nth [OF Cons.prems(2) lv, of "(+)"] Cons.prems(2) lv
    by simp
  have "vec_sum_loop vs (map (\<lambda>c. acc ! c + v ! c) [0..<n]) =
      Inr (map (\<lambda>c. (map (\<lambda>c. acc ! c + v ! c) [0..<n]) ! c + (\<Sum>v\<leftarrow>vs. v ! c)) [0..<n])"
    using Cons.IH [of "map (\<lambda>c. acc ! c + v ! c) [0..<n]"] Cons.prems(1) by simp
  also have "map (\<lambda>c. (map (\<lambda>c. acc ! c + v ! c) [0..<n]) ! c + (\<Sum>v\<leftarrow>vs. v ! c)) [0..<n] =
      map (\<lambda>c. acc ! c + (\<Sum>v\<leftarrow>v # vs. v ! c)) [0..<n]"
    by (rule map_cong) simp_all
  finally show ?case
    using step by simp
qed

text \<open>The squared distance, coordinate by coordinate.\<close>

lemma sample_from_distribution_value:
  assumes "T \<noteq> []" and "\<forall>p\<in>set T. length p = n" and "length x = n"
    and "set vs \<subseteq> set T"
  shows "sample_from_distribution T x k vs =
     Inr (\<Sum>c\<leftarrow>[0..<n]. (x ! c - (\<Sum>v\<leftarrow>vs. v ! c) / real k) ^ 2, vs)"
proof -
  obtain t0 rest where T: "T = t0 # rest"
    using assms(1) by (cases T) simp_all
  have l0: "length t0 = n"
    using assms(2) T by simp
  have lv: "\<forall>v\<in>set vs. length v = n"
    using assms(2,4) by blast
  have vs: "vec_sum_loop vs (replicate n 0) = Inr (map (\<lambda>c. (\<Sum>v\<leftarrow>vs. v ! c)) [0..<n])"
  proof -
    have "map (\<lambda>c. replicate n (0::real) ! c + (\<Sum>v\<leftarrow>vs. v ! c)) [0..<n] =
        map (\<lambda>c. (\<Sum>v\<leftarrow>vs. v ! c)) [0..<n]"
      by (rule map_cong) simp_all
    then show ?thesis
      using vec_sum_loop_nth [OF lv, of "replicate n 0"] by simp
  qed
  have sub: "np_binop (-) x (map (\<lambda>t. t / real k) (map (\<lambda>c. (\<Sum>v\<leftarrow>vs. v ! c)) [0..<n])) =
      Inr (map (\<lambda>c. x ! c - (\<Sum>v\<leftarrow>vs. v ! c) / real k) [0..<n])"
  proof -
    have "map2 (-) x (map (\<lambda>t. t / real k) (map (\<lambda>c. (\<Sum>v\<leftarrow>vs. v ! c)) [0..<n])) =
       map (\<lambda>c. x ! c - (map (\<lambda>t. t / real k) (map (\<lambda>c. (\<Sum>v\<leftarrow>vs. v ! c)) [0..<n])) ! c) [0..<n]"
      using map2_nth [OF assms(3), of _ "(-)"] by simp
    also have "\<dots> = map (\<lambda>c. x ! c - (\<Sum>v\<leftarrow>vs. v ! c) / real k) [0..<n]"
      by (rule map_cong) simp_all
    finally show ?thesis
      using np_binop_same_length [of x _ "(-)"] assms(3) by simp
  qed
  show ?thesis
    using T l0 vs sub by (simp add: sample_from_distribution_def comp_def)
qed

subsection \<open>The trial loop\<close>

lemma trial_loop_snoc:
  "trial_loop T x k st (cs @ [c]) =
     (case trial_loop T x k st cs of Inl e \<Rightarrow> Inl e | Inr st' \<Rightarrow> trial_step T x k st' c)"
  by (induction cs arbitrary: st) (simp_all split: sum.splits)

lemma trials_Suc:
  "trials T x k (Suc j) choices =
     (case trials T x k j choices of Inl e \<Rightarrow> Inl e | Inr st \<Rightarrow> trial_step T x k st (choices j))"
  by (simp add: trials_def trial_loop_snoc)

lemma trial_step_value:
  assumes "sample_from_distribution T x k c = Inr (s, c)"
  shows "trial_step T x k st c =
     Inr (if float_less s (bestVal st)
          then st\<lparr>best := Some c, bestVal := Finite s, samples := samples st @ [s]\<rparr>
          else st\<lparr>samples := samples st @ [s]\<rparr>)"
  using assms by (simp add: trial_step_def Let_def)

text \<open>The state after \<open>j\<close> iterations, when every draw gives a distance.\<close>

lemma trials_invariant:
  assumes "\<forall>i<j. sample_from_distribution T x k (choices i) = Inr (D i, choices i)"
  shows "\<exists>st. trials T x k j choices = Inr st \<and> samples st = map D [0..<j] \<and>
     (if j = 0 then bestVal st = PosInf \<and> best st = None
      else bestVal st = Finite (Min (D ` {..<j})) \<and>
           (\<exists>i<j. best st = Some (choices i) \<and> D i = Min (D ` {..<j})))"
  using assms
proof (induction j)
  case 0
  then show ?case by (simp add: trials_def)
next
  case (Suc j)
  obtain st where st: "trials T x k j choices = Inr st" "samples st = map D [0..<j]"
    "if j = 0 then bestVal st = PosInf \<and> best st = None
      else bestVal st = Finite (Min (D ` {..<j})) \<and>
           (\<exists>i<j. best st = Some (choices i) \<and> D i = Min (D ` {..<j}))"
    using Suc by auto
  have sj: "sample_from_distribution T x k (choices j) = Inr (D j, choices j)"
    using Suc.prems by simp
  define st' where "st' = (if float_less (D j) (bestVal st)
          then st\<lparr>best := Some (choices j), bestVal := Finite (D j), samples := samples st @ [D j]\<rparr>
          else st\<lparr>samples := samples st @ [D j]\<rparr>)"
  have run: "trials T x k (Suc j) choices = Inr st'"
    using st(1) trial_step_value [OF sj] by (simp add: trials_Suc st'_def)
  have smp: "samples st' = map D [0..<Suc j]"
    using st(2) by (simp add: st'_def)
  have bst: "bestVal st' = Finite (Min (D ` {..<Suc j})) \<and>
           (\<exists>i<Suc j. best st' = Some (choices i) \<and> D i = Min (D ` {..<Suc j}))"
  proof (cases "j = 0")
    case True
    then have "bestVal st = PosInf"
      using st(3) by simp
    then have "st' = st\<lparr>best := Some (choices j), bestVal := Finite (D j), samples := samples st @ [D j]\<rparr>"
      by (simp add: st'_def float_less_def)
    then show ?thesis
      using True by (simp add: lessThan_Suc)
  next
    case False
    then have b: "bestVal st = Finite (Min (D ` {..<j}))"
      and ex: "\<exists>i<j. best st = Some (choices i) \<and> D i = Min (D ` {..<j})"
      using st(3) by simp_all
    have ne: "D ` {..<j} \<noteq> {}" and fin: "finite (D ` {..<j})"
      using False by auto
    have min: "Min (D ` {..<Suc j}) = min (D j) (Min (D ` {..<j}))"
      using ne fin by (simp add: lessThan_Suc)
    show ?thesis
    proof (cases "D j < Min (D ` {..<j})")
      case True
      then have "st' = st\<lparr>best := Some (choices j), bestVal := Finite (D j), samples := samples st @ [D j]\<rparr>"
        using b by (simp add: st'_def float_less_def)
      moreover have "Min (D ` {..<Suc j}) = D j"
        using True min by simp
      ultimately show ?thesis
        by auto
    next
      case notless: False
      then have "st' = st\<lparr>samples := samples st @ [D j]\<rparr>"
        using b by (simp add: st'_def float_less_def)
      moreover have "Min (D ` {..<Suc j}) = Min (D ` {..<j})"
        using notless min by simp
      ultimately show ?thesis
        using b ex less_Suc_eq by auto
    qed
  qed
  show ?case
    using run smp bst by simp
qed

text \<open>
  Claim C5: after \<open>numSamples \<ge> 1\<close> iterations over draws of points of \<open>T\<close>
  (with \<open>k \<ge> 1\<close>, points of \<open>n\<close> coordinates and a target of as many), the
  list \<open>samples\<close> has \<open>numSamples\<close> entries, the \<open>i\<close>-th of them the distance of
  the \<open>i\<close>-th draw; \<open>bestVal\<close> is the least of them and \<open>best\<close> is a draw whose
  distance is that least value; and iteration \<open>j\<close> changes the pair
  (\<open>bestVal\<close>, \<open>best\<close>) only when its distance is less than the \<open>bestVal\<close> it finds,
  and then to its own distance and draw.
\<close>

theorem C5_trial_loop:
  assumes "numSamples \<ge> 1" and "k \<ge> 1" and "T \<noteq> []" and "\<forall>p\<in>set T. length p = n"
    and "length x = n" and "\<forall>i<numSamples. set (choices i) \<subseteq> set T"
  shows "\<exists>st. trials T x k numSamples choices = Inr st \<and>
     length (samples st) = numSamples \<and>
     (\<forall>i<numSamples. sample_from_distribution T x k (choices i) = Inr (samples st ! i, choices i)) \<and>
     bestVal st = Finite (Min (set (samples st))) \<and>
     (\<exists>i<numSamples. best st = Some (choices i) \<and> samples st ! i = Min (set (samples st))) \<and>
     (\<forall>j<numSamples. \<exists>s s'. trials T x k j choices = Inr s \<and> trials T x k (Suc j) choices = Inr s' \<and>
        (if float_less (samples st ! j) (bestVal s)
         then bestVal s' = Finite (samples st ! j) \<and> best s' = Some (choices j)
         else bestVal s' = bestVal s \<and> best s' = best s))"
proof -
  define D where "D i = (\<Sum>c\<leftarrow>[0..<n]. (x ! c - (\<Sum>v\<leftarrow>choices i. v ! c) / real k) ^ 2)" for i
  have smp: "\<forall>i<numSamples. sample_from_distribution T x k (choices i) = Inr (D i, choices i)"
    using sample_from_distribution_value [OF assms(3,4,5)] assms(6) by (simp add: D_def)
  obtain st where st: "trials T x k numSamples choices = Inr st"
    "samples st = map D [0..<numSamples]"
    "bestVal st = Finite (Min (D ` {..<numSamples}))"
    "\<exists>i<numSamples. best st = Some (choices i) \<and> D i = Min (D ` {..<numSamples})"
    using trials_invariant [OF smp] assms(1) by auto
  have set_eq: "set (samples st) = D ` {..<numSamples}"
    using st(2) by (simp add: atLeast_upt [symmetric] del: atLeast_upt set_upt)
  have nth: "\<And>i. i < numSamples \<Longrightarrow> samples st ! i = D i"
    using st(2) by simp
  have strict: "\<exists>s s'. trials T x k j choices = Inr s \<and> trials T x k (Suc j) choices = Inr s' \<and>
        (if float_less (D j) (bestVal s)
         then bestVal s' = Finite (D j) \<and> best s' = Some (choices j)
         else bestVal s' = bestVal s \<and> best s' = best s)" if j: "j < numSamples" for j
  proof -
    have "\<forall>i<j. sample_from_distribution T x k (choices i) = Inr (D i, choices i)"
      using smp j by simp
    then obtain s where s: "trials T x k j choices = Inr s"
      using trials_invariant [of j T x k choices D] by blast
    have sj: "sample_from_distribution T x k (choices j) = Inr (D j, choices j)"
      using smp j by simp
    show ?thesis
      using s trial_step_value [OF sj, of s] by (simp add: trials_Suc)
  qed
  have "length (samples st) = numSamples"
    using st(2) by simp
  moreover have "\<forall>i<numSamples. sample_from_distribution T x k (choices i) = Inr (samples st ! i, choices i)"
    using smp nth by simp
  moreover have "bestVal st = Finite (Min (set (samples st)))"
    using st(3) set_eq by simp
  moreover have "\<exists>i<numSamples. best st = Some (choices i) \<and> samples st ! i = Min (set (samples st))"
    using st(4) set_eq nth by auto
  moreover have "\<forall>j<numSamples. \<exists>s s'. trials T x k j choices = Inr s \<and> trials T x k (Suc j) choices = Inr s' \<and>
        (if float_less (samples st ! j) (bestVal s)
         then bestVal s' = Finite (samples st ! j) \<and> best s' = Some (choices j)
         else bestVal s' = bestVal s \<and> best s' = best s)"
  proof (intro allI impI)
    fix j assume j: "j < numSamples"
    show "\<exists>s s'. trials T x k j choices = Inr s \<and> trials T x k (Suc j) choices = Inr s' \<and>
        (if float_less (samples st ! j) (bestVal s)
         then bestVal s' = Finite (samples st ! j) \<and> best s' = Some (choices j)
         else bestVal s' = bestVal s \<and> best s' = best s)"
      unfolding nth [OF j] using strict [OF j] .
  qed
  ultimately show ?thesis
    using st(1) by blast
qed

text \<open>
  Three draws of one point out of the points 0 and 1 on the line, with target 1/4:
  the distances are 9/16, 1/16 and 1/16, and the best draw is the second (the third
  ties with it and does not replace it).
\<close>

theorem C5_trial_loop_witness:
  "trials [[0], [1]] [1 / 4] 1 3 choices0 =
     Inr \<lparr>samples = [9 / 16, 1 / 16, 1 / 16], bestVal = Finite (1 / 16), best = Some [[0]]\<rparr>"
proof -
  have h: "\<forall>i<3. set (choices0 i) \<subseteq> set [[0], [1::real]]"
    by (simp add: choices0_def)
  obtain st where st: "trials [[0], [1]] [1 / 4] 1 3 choices0 = Inr st"
    "length (samples st) = 3"
    "bestVal st = Finite (Min (set (samples st)))"
    using C5_trial_loop [of 3 1 "[[0], [1]]" 1 "[1 / 4]" choices0] h by auto
  have "trials [[0], [1]] [1 / 4] 1 3 choices0 =
     Inr \<lparr>samples = [9 / 16, 1 / 16, 1 / 16], bestVal = Finite (1 / 16), best = Some [[0]]\<rparr>"
    by (simp add: trials_def trial_step_def sample_from_distribution_def np_binop_def
        float_less_def choices0_def upt_rec numeral_3_eq_3 power2_eq_square)
  with st show ?thesis
    by simp
qed

subsection \<open>The target and single draws\<close>

lemma construct_x_loop_nth:
  assumes "\<forall>p\<in>set T. length p = n" and "length w = length T"
    and "\<forall>i\<in>set js. i < length T" and "length acc = n"
  shows "construct_x_loop T w js acc =
     Inr (map (\<lambda>c. acc ! c + (\<Sum>i\<leftarrow>js. w ! i * T ! i ! c)) [0..<n])"
  using assms(3,4)
proof (induction js arbitrary: acc)
  case Nil
  then have "map ((!) acc) [0..<n] = acc"
    using map_nth [of acc] by simp
  then show ?case by simp
next
  case (Cons i js)
  have i: "i < length T" "i < length w"
    using Cons.prems(1) assms(2) by simp_all
  have li: "length (T ! i) = n"
    using assms(1) i(1) by simp
  define acc' where "acc' = map (\<lambda>c. acc ! c + w ! i * T ! i ! c) [0..<n]"
  have "map2 (+) acc (map (\<lambda>t. w ! i * t) (T ! i)) =
      map (\<lambda>c. acc ! c + (map (\<lambda>t. w ! i * t) (T ! i)) ! c) [0..<n]"
    using map2_nth [OF Cons.prems(2), of _ "(+)"] li by simp
  also have "\<dots> = acc'"
    unfolding acc'_def using li by (intro map_cong) simp_all
  finally have step: "np_binop (+) acc (map (\<lambda>t. w ! i * t) (T ! i)) = Inr acc'"
    using np_binop_same_length [of acc _ "(+)"] Cons.prems(2) li by simp
  have "construct_x_loop T w js acc' =
      Inr (map (\<lambda>c. acc' ! c + (\<Sum>i\<leftarrow>js. w ! i * T ! i ! c)) [0..<n])"
    using Cons.IH [of acc'] Cons.prems(1) by (simp add: acc'_def)
  also have "map (\<lambda>c. acc' ! c + (\<Sum>i\<leftarrow>js. w ! i * T ! i ! c)) [0..<n] =
      map (\<lambda>c. acc ! c + (\<Sum>i\<leftarrow>i # js. w ! i * T ! i ! c)) [0..<n]"
    unfolding acc'_def by (intro map_cong) simp_all
  finally show ?case
    using step i by simp
qed

lemma construct_x_value:
  assumes "\<forall>p\<in>set T. length p = n" and "length w = length T"
  shows "construct_x n T w = Inr (map (\<lambda>c. \<Sum>i\<leftarrow>[0..<length T]. w ! i * T ! i ! c) [0..<n])"
proof -
  have "map (\<lambda>c. replicate n (0::real) ! c + (\<Sum>i\<leftarrow>[0..<length T]. w ! i * T ! i ! c)) [0..<n] =
      map (\<lambda>c. \<Sum>i\<leftarrow>[0..<length T]. w ! i * T ! i ! c) [0..<n]"
    by (intro map_cong) simp_all
  then show ?thesis
    using construct_x_loop_nth [OF assms, of "[0..<length T]" "replicate n 0"]
    by (simp add: construct_x_def)
qed

lemma possible_draws_1: "possible_draws T w 1 = map (\<lambda>p. [p]) (support T w)"
  by (simp add: possible_draws_def)

lemma support_subset: "set (support T w) \<subseteq> set T"
  by (auto simp: support_def)

lemma sample_from_distribution_single:
  assumes "T \<noteq> []" and "\<forall>p\<in>set T. length p = n" and "length x = n" and "p \<in> set T"
  shows "sample_from_distribution T x 1 [p] = Inr (squared_distance x p, [p])"
  using sample_from_distribution_value [OF assms(1,2,3), of "[p]" 1] assms(3,4)
  by (simp add: squared_distance_def)

lemma support_nonempty:
  assumes "length w = length T" and "\<exists>i<length T. 0 < w ! i"
  shows "support T w \<noteq> []"
proof -
  obtain i where "i < length T" "0 < w ! i"
    using assms(2) by blast
  then have "i \<in> set (filter (\<lambda>i. w ! i > 0) [0..<length T])"
    by simp
  then have "filter (\<lambda>i. w ! i > 0) [0..<length T] \<noteq> []"
    by force
  then show ?thesis
    by (simp add: support_def)
qed

text \<open>
  Claim C9: with \<open>k = 1\<close>, a draw is a single point of \<open>T\<close>, and the distance
  the trial computes is the squared Euclidean distance from the target to that point;
  hence the least distance over the draws that can occur is the least squared distance
  from the target to a point of positive weight.
\<close>

theorem C9_single_draw:
  assumes "T \<noteq> []" and "\<forall>p\<in>set T. length p = n" and "length w = length T"
    and "\<exists>i<length T. 0 < w ! i"
  shows "\<exists>x. construct_x n T w = Inr x \<and>
     possible_draws T w 1 \<noteq> [] \<and>
     (\<forall>vs\<in>set (possible_draws T w 1). \<exists>p\<in>set T. vs = [p] \<and>
         sample_from_distribution T x 1 vs = Inr (squared_distance x p, vs)) \<and>
     Min ((\<lambda>vs. fst (projr (sample_from_distribution T x 1 vs))) ` set (possible_draws T w 1)) =
       Min ((\<lambda>p. squared_distance x p) ` set (support T w))"
proof -
  define x where "x = map (\<lambda>c. \<Sum>i\<leftarrow>[0..<length T]. w ! i * T ! i ! c) [0..<n]"
  have cx: "construct_x n T w = Inr x"
    using construct_x_value [OF assms(2,3)] by (simp add: x_def)
  have lx: "length x = n"
    by (simp add: x_def)
  have single: "\<And>p. p \<in> set T \<Longrightarrow>
      sample_from_distribution T x 1 [p] = Inr (squared_distance x p, [p])"
    using sample_from_distribution_single [OF assms(1,2) lx] by simp
  have ne: "possible_draws T w 1 \<noteq> []"
    unfolding possible_draws_1 using support_nonempty [OF assms(3,4)] by simp
  have a: "\<forall>vs\<in>set (possible_draws T w 1). \<exists>p\<in>set T. vs = [p] \<and>
         sample_from_distribution T x 1 vs = Inr (squared_distance x p, vs)"
  proof
    fix vs assume "vs \<in> set (possible_draws T w 1)"
    then obtain p where p: "p \<in> set (support T w)" "vs = [p]"
      unfolding possible_draws_1 by auto
    then have "p \<in> set T"
      using support_subset [of T w] by blast
    then show "\<exists>p\<in>set T. vs = [p] \<and>
        sample_from_distribution T x 1 vs = Inr (squared_distance x p, vs)"
      using single p(2) by blast
  qed
  have "(\<lambda>vs. fst (projr (sample_from_distribution T x 1 vs))) ` set (possible_draws T w 1) =
      (\<lambda>p. fst (projr (sample_from_distribution T x 1 [p]))) ` set (support T w)"
    unfolding possible_draws_1 by (simp add: image_image)
  also have "\<dots> = (\<lambda>p. squared_distance x p) ` set (support T w)"
  proof (rule image_cong)
    fix p assume "p \<in> set (support T w)"
    then have "p \<in> set T"
      using support_subset [of T w] by blast
    then show "fst (projr (sample_from_distribution T x 1 [p])) = squared_distance x p"
      using single by simp
  qed simp
  finally have "(\<lambda>vs. fst (projr (sample_from_distribution T x 1 vs))) ` set (possible_draws T w 1) =
      (\<lambda>p. squared_distance x p) ` set (support T w)" .
  then show ?thesis
    using cx ne a by simp
qed

text \<open>
  The points 0 and 1 on the line with weights 1/4 and 3/4: the target is 3/4, and the
  least distance over the two possible draws is 1/16.
\<close>

theorem C9_single_draw_witness:
  "construct_x 1 [[0], [1]] [1 / 4, 3 / 4] = Inr [3 / 4] \<and>
   possible_draws [[0], [1]] [1 / 4, 3 / 4] 1 = [[[0]], [[1]]] \<and>
   Min ((\<lambda>vs. fst (projr (sample_from_distribution [[0], [1]] [3 / 4] 1 vs))) `
          set (possible_draws [[0], [1]] [1 / 4, 3 / 4] 1)) = 1 / 16"
proof -
  have cx: "construct_x 1 [[0], [1]] [1 / 4, 3 / 4] = Inr [3 / 4]"
    by (simp add: construct_x_def np_binop_def upt_rec)
  have pd: "possible_draws [[0], [1]] [1 / 4, 3 / 4] 1 = [[[0]], [[1]]]"
    by (simp add: possible_draws_def support_def upt_rec)
  have sp: "support [[0], [1]] [1 / 4, 3 / 4] = [[0], [1]]"
    by (simp add: support_def upt_rec)
  have h: "\<exists>i<length [[0], [1::real]]. 0 < [1 / 4, 3 / 4 :: real] ! i"
    by (intro exI [of _ 0]) simp
  obtain x where x: "construct_x 1 [[0], [1]] [1 / 4, 3 / 4] = Inr x"
    "Min ((\<lambda>vs. fst (projr (sample_from_distribution [[0], [1]] x 1 vs))) `
          set (possible_draws [[0], [1]] [1 / 4, 3 / 4] 1)) =
       Min ((\<lambda>p. squared_distance x p) ` set (support [[0], [1]] [1 / 4, 3 / 4]))"
    using C9_single_draw [of "[[0], [1]]" 1 "[1 / 4, 3 / 4]"] h by auto
  have "x = [3 / 4]"
    using x(1) cx by simp
  then have "Min ((\<lambda>vs. fst (projr (sample_from_distribution [[0], [1]] [3 / 4] 1 vs))) `
          set (possible_draws [[0], [1]] [1 / 4, 3 / 4] 1)) = 1 / 16"
    using x(2) by (simp add: sp squared_distance_def power2_eq_square)
  with cx pd show ?thesis
    by simp
qed

subsection \<open>The expectation over the draws\<close>

text \<open>The expectation is linear, and depends on the function only at lists of \<open>k\<close> points of \<open>T\<close>.\<close>

lemma sum_list_upt_sum: "(\<Sum>i\<leftarrow>[0..<m]. f i) = (\<Sum>i<m. f i)"
  by (simp add: interv_sum_list_conv_sum_set_nat atLeast0LessThan)

lemma sum_list_nth_sum: "sum_list (w :: real list) = (\<Sum>i<length w. w ! i)"
  by (simp add: sum_list_sum_nth atLeast0LessThan)

lemma expectation_Suc:
  "expectation T w (Suc k) f = (\<Sum>i<length T. w ! i * expectation T w k (\<lambda>vs. f (T ! i # vs)))"
  by (simp add: sum_list_upt_sum)

lemma expectation_cong:
  assumes "\<And>vs. length vs = k \<Longrightarrow> set vs \<subseteq> set T \<Longrightarrow> f vs = g vs"
  shows "expectation T w k f = expectation T w k g"
  using assms
proof (induction k arbitrary: f g)
  case 0
  then show ?case by simp
next
  case (Suc k)
  have "expectation T w k (\<lambda>vs. f (T ! i # vs)) = expectation T w k (\<lambda>vs. g (T ! i # vs))"
    if "i < length T" for i
    using that Suc.prems by (intro Suc.IH) simp
  then show ?case
    unfolding expectation_Suc by (intro sum.cong) simp_all
qed

lemma expectation_add:
  "expectation T w k (\<lambda>vs. f vs + g vs) = expectation T w k f + expectation T w k g"
proof (induction k arbitrary: f g)
  case 0
  then show ?case by simp
next
  case (Suc k)
  show ?case
    unfolding expectation_Suc Suc.IH by (simp add: distrib_left sum.distrib)
qed

lemma expectation_cmult:
  "expectation T w k (\<lambda>vs. c * f vs) = c * expectation T w k f"
proof (induction k arbitrary: f)
  case 0
  then show ?case by simp
next
  case (Suc k)
  show ?case
    unfolding expectation_Suc Suc.IH by (simp add: sum_distrib_left mult.left_commute)
qed

lemma expectation_const:
  assumes "length w = length T" and "sum_list w = 1"
  shows "expectation T w k (\<lambda>vs. c) = c"
proof (induction k)
  case 0
  then show ?case by simp
next
  case (Suc k)
  have "(\<Sum>i<length T. w ! i * c) = (\<Sum>i<length w. w ! i) * c"
    using assms(1) by (simp add: sum_distrib_right)
  then show ?case
    unfolding expectation_Suc Suc.IH using assms(2) by (simp add: sum_list_nth_sum)
qed

lemma expectation_zero: "expectation T w k (\<lambda>vs. 0) = 0"
  using expectation_cmult [of T w k 0 "\<lambda>vs. 0"] by simp

lemma expectation_sum_list:
  "expectation T w k (\<lambda>vs. \<Sum>c\<leftarrow>cs. h c vs) = (\<Sum>c\<leftarrow>cs. expectation T w k (h c))"
  by (induction cs) (simp_all add: expectation_zero expectation_add)

text \<open>The sum of \<open>k\<close> independent draws of a quantity of mean zero.\<close>

lemma expectation_sum_mean_zero:
  assumes "length w = length T" and "sum_list w = 1"
    and "(\<Sum>i<length T. w ! i * dev (T ! i)) = 0"
  shows "expectation T w k (\<lambda>vs. \<Sum>v\<leftarrow>vs. dev v) = 0"
proof (induction k)
  case 0
  then show ?case by simp
next
  case (Suc k)
  have "expectation T w k (\<lambda>vs. \<Sum>v\<leftarrow>T ! i # vs. dev v) = dev (T ! i)" for i
    using expectation_add [of T w k "\<lambda>vs. dev (T ! i)" "\<lambda>vs. \<Sum>v\<leftarrow>vs. dev v"]
      expectation_const [OF assms(1,2), of k "dev (T ! i)"] Suc.IH by simp
  then show ?case
    unfolding expectation_Suc using assms(3) by simp
qed

lemma expectation_sum_squared:
  assumes "length w = length T" and "sum_list w = 1"
    and "(\<Sum>i<length T. w ! i * dev (T ! i)) = 0"
  shows "expectation T w k (\<lambda>vs. (\<Sum>v\<leftarrow>vs. dev v) ^ 2) =
     real k * (\<Sum>i<length T. w ! i * (dev (T ! i)) ^ 2)"
proof (induction k)
  case 0
  then show ?case by simp
next
  case (Suc k)
  define V where "V = (\<Sum>i<length T. w ! i * (dev (T ! i)) ^ 2)"
  define S where "S vs = (\<Sum>v\<leftarrow>vs. dev v)" for vs :: "real list list"
  have ES: "expectation T w k S = 0"
    using expectation_sum_mean_zero [OF assms] by (simp add: S_def [abs_def])
  have ES2: "expectation T w k (\<lambda>vs. (S vs) ^ 2) = real k * V"
    using Suc.IH by (simp add: S_def V_def)
  have one: "expectation T w k (\<lambda>vs. (\<Sum>v\<leftarrow>T ! i # vs. dev v) ^ 2) =
      (dev (T ! i)) ^ 2 + real k * V" for i
  proof -
    have "expectation T w k (\<lambda>vs. (\<Sum>v\<leftarrow>T ! i # vs. dev v) ^ 2) =
        expectation T w k (\<lambda>vs. (dev (T ! i)) ^ 2 + (2 * dev (T ! i) * S vs + (S vs) ^ 2))"
      by (intro expectation_cong) (simp add: S_def power2_sum)
    also have "\<dots> = (dev (T ! i)) ^ 2 + (2 * dev (T ! i) * expectation T w k S + real k * V)"
      unfolding expectation_add expectation_cmult ES2
      using expectation_const [OF assms(1,2)] by simp
    finally show ?thesis
      using ES by simp
  qed
  have "expectation T w (Suc k) (\<lambda>vs. (\<Sum>v\<leftarrow>vs. dev v) ^ 2) =
      (\<Sum>i<length T. w ! i * ((dev (T ! i)) ^ 2 + real k * V))"
    unfolding expectation_Suc one ..
  also have "\<dots> = V + (\<Sum>i<length T. w ! i) * (real k * V)"
    by (simp add: distrib_left sum.distrib V_def sum_distrib_right)
  also have "(\<Sum>i<length T. w ! i) = 1"
    using assms(1,2) by (simp add: sum_list_nth_sum)
  finally show ?case
    by (simp add: V_def algebra_simps)
qed

subsection \<open>Distances\<close>

lemma squared_distance_nonneg: "0 \<le> squared_distance a b"
  unfolding squared_distance_def by (intro sum_list_nonneg) auto

lemma squared_distance_sym:
  "length a = length b \<Longrightarrow> squared_distance a b = squared_distance b a"
  unfolding squared_distance_def by (simp add: power2_commute)

text \<open>The diameter is the largest of the distances between two of the points.\<close>

lemma pairs_set:
  "set (concat (map (\<lambda>i. map (f i) [Suc i..<m]) [0..<m])) = {f i j | i j. i < j \<and> j < m}"
proof (intro set_eqI iffI)
  fix y assume "y \<in> set (concat (map (\<lambda>i. map (f i) [Suc i..<m]) [0..<m]))"
  then obtain i j where "i < m" "Suc i \<le> j" "j < m" "y = f i j"
    by auto
  then have "i < j \<and> j < m \<and> y = f i j"
    by simp
  then show "y \<in> {f i j | i j. i < j \<and> j < m}"
    by blast
next
  fix y assume "y \<in> {f i j | i j. i < j \<and> j < m}"
  then obtain i j where ij: "i < j" "j < m" "y = f i j"
    by blast
  then have "i \<in> set [0..<m]" "y \<in> set (map (f i) [Suc i..<m])"
    by simp_all
  then show "y \<in> set (concat (map (\<lambda>i. map (f i) [Suc i..<m]) [0..<m]))"
    unfolding set_concat by (intro UN_I [of "map (f i) [Suc i..<m]"]) simp_all
qed

lemma diameter_set:
  "set (0 # concat (map (\<lambda>i. map (\<lambda>j. sqrt (squared_distance (P ! i) (P ! j)))
                                       [Suc i..<length P]) [0..<length P])) =
   insert 0 {sqrt (squared_distance (P ! i) (P ! j)) | i j. i < j \<and> j < length P}"
  using pairs_set [of "\<lambda>i j. sqrt (squared_distance (P ! i) (P ! j))" "length P"] by simp

lemma diameter_Max:
  "diameter P = Max (insert 0 {sqrt (squared_distance (P ! i) (P ! j)) | i j. i < j \<and> j < length P})"
  unfolding diameter_def diameter_set ..

lemma diameter_finite:
  "finite (insert 0 {sqrt (squared_distance (P ! i) (P ! j)) | i j. i < j \<and> j < length (P :: real list list)})"
  using finite_set [of "0 # concat (map (\<lambda>i. map (\<lambda>j. sqrt (squared_distance (P ! i) (P ! j)))
                                       [Suc i..<length P]) [0..<length P])"]
  unfolding diameter_set .

lemma diameter_nonneg: "0 \<le> diameter P"
  unfolding diameter_Max using diameter_finite [of P] by (intro Max_ge) simp_all

lemma diameter_ge:
  assumes "i < j" and "j < length P"
  shows "sqrt (squared_distance (P ! i) (P ! j)) \<le> diameter P"
  unfolding diameter_Max using diameter_finite [of P] assms by (intro Max_ge) auto

lemma diameter_bound:
  assumes "\<forall>p\<in>set P. length p = n" and ij: "i < length P" "j < length P"
  shows "squared_distance (P ! i) (P ! j) \<le> (diameter P) ^ 2"
proof -
  have sq: "squared_distance (P ! i) (P ! j) \<le> (diameter P) ^ 2" if "i < j" "j < length P" for i j
  proof -
    have "(sqrt (squared_distance (P ! i) (P ! j))) ^ 2 \<le> (diameter P) ^ 2"
      using diameter_ge [OF that] squared_distance_nonneg [of "P ! i" "P ! j"]
      by (intro power_mono) simp_all
    then show ?thesis
      using squared_distance_nonneg [of "P ! i" "P ! j"] by simp
  qed
  consider "i < j" | "j < i" | "i = j"
    by linarith
  then show ?thesis
  proof cases
    case 1
    then show ?thesis using sq ij by simp
  next
    case 2
    have "squared_distance (P ! i) (P ! j) = squared_distance (P ! j) (P ! i)"
      using assms(1) ij by (intro squared_distance_sym) simp
    then show ?thesis using sq [OF 2 ij(1)] by simp
  next
    case 3
    then show ?thesis by (simp add: squared_distance_def)
  qed
qed

subsection \<open>The diameter cell\<close>

text \<open>
  Sums, differences and squares of 64-bit integers are those of the integers modulo
  \<open>2\<^sup>6\<^sup>4\<close>, so the sum of squares that \<^verbatim>\<open>d_xixj\<close> computes on two arrays of
  integers is the true one when that is below \<open>2\<^sup>6\<^sup>3\<close>.
\<close>

lemma int64_sum_squares:
  fixes u v :: "64 word list"
  assumes "length u = length v"
  shows "sum_list (map (\<lambda>t. t ^ 2) (map2 (-) u v)) =
     word_of_int (\<Sum>(p, q)\<leftarrow>zip u v. (sint p - sint q) ^ 2)"
  using assms by (induction u v rule: list_induct2) simp_all

lemma sint_int64_exact:
  assumes "0 \<le> s" and "s < 2 ^ 63"
  shows "sint (word_of_int s :: 64 word) = s"
proof -
  have "(s + 2 ^ 63) mod 2 ^ 64 = s + 2 ^ 63"
    using assms by (intro mod_pos_pos_trivial) simp_all
  then show ?thesis
    by (simp add: int_word_sint)
qed

lemma zip_sum_nth:
  assumes "length u = n" and "length v = n"
  shows "(\<Sum>(p, q)\<leftarrow>zip u v. f p q) = (\<Sum>c\<leftarrow>[0..<n]. f (u ! c) (v ! c))"
proof -
  have "map (\<lambda>(p, q). f p q) (zip u v) = map (\<lambda>c. f (u ! c) (v ! c)) [0..<n]"
    using assms by (intro nth_equalityI) simp_all
  then show ?thesis
    by simp
qed

lemma sum_squares_int_nonneg: "0 \<le> (\<Sum>(p, q)\<leftarrow>zip u v. (sint p - sint q) ^ 2)"
  by (intro sum_list_nonneg) auto

text \<open>The distance of two points, when the integer arithmetic is exact.\<close>

lemma d_xixj_exact:
  assumes "length (array_values a) = n" and "length (array_values b) = n" and "int64_exact a b"
  shows "d_xixj a b = Inr (Fin (sqrt (squared_distance (array_values a) (array_values b))))"
proof (cases "\<exists>u v. a = Int64 u \<and> b = Int64 v")
  case True
  then obtain u v where ab: "a = Int64 u" "b = Int64 v"
    by blast
  have l: "length u = n" "length v = n"
    using assms(1,2) ab by (simp_all add: array_values_def)
  define s where "s = (\<Sum>(p, q)\<leftarrow>zip u v. (sint p - sint q) ^ 2)"
  have s: "0 \<le> s" "s < 2 ^ 63"
    using assms(3) ab sum_squares_int_nonneg [of u v] by (simp_all add: s_def int64_exact_def)
  have w: "sint (sum_list (map (\<lambda>t. t ^ 2) (map2 (-) u v))) = s"
    using int64_sum_squares [of u v] l sint_int64_exact [OF s] by (simp add: s_def)
  have r: "real_of_int s = squared_distance (array_values a) (array_values b)"
  proof -
    have "real_of_int s =
        sum_list (map real_of_int (map (\<lambda>c. (sint (u ! c) - sint (v ! c)) ^ 2) [0..<n]))"
      unfolding s_def zip_sum_nth [OF l] by (simp only: sum_list_of_int)
    also have "map real_of_int (map (\<lambda>c. (sint (u ! c) - sint (v ! c)) ^ 2) [0..<n]) =
        map (\<lambda>c. (array_values a ! c - array_values b ! c) ^ 2) [0..<n]"
      using l ab by (simp add: array_values_def)
    finally show ?thesis
      using l ab by (simp add: squared_distance_def array_values_def)
  qed
  have "np_binop (-) u v = Inr (map2 (-) u v)"
    using np_binop_same_length [of u v "(-)"] l by simp
  then have "d_xixj a b = Inr (np_sqrt (real_of_int s))"
    using ab w by (simp add: d_xixj_def)
  then show ?thesis
    using r squared_distance_nonneg [of "array_values a" "array_values b"]
    by (simp add: np_sqrt_def)
next
  case False
  have l: "length (array_values a) = length (array_values b)"
    using assms(1,2) by simp
  have "map (\<lambda>t. t ^ 2) (map2 (-) (array_values a) (array_values b)) =
      map (\<lambda>c. (array_values a ! c - array_values b ! c) ^ 2) [0..<n]"
    using map2_nth [OF assms(1,2), of "(-)"] by (simp add: comp_def)
  then have sq: "sum_list (map (\<lambda>t. t ^ 2) (map2 (-) (array_values a) (array_values b))) =
      squared_distance (array_values a) (array_values b)"
    using assms(1) by (simp add: squared_distance_def)
  have "d_xixj a b = Inr (np_sqrt (sum_list (map (\<lambda>t. t ^ 2) (map2 (-) (array_values a) (array_values b)))))"
    using False np_binop_same_length [OF l, of "(-)"]
    by (cases a; cases b) (simp_all add: d_xixj_def)
  then show ?thesis
    using sq squared_distance_nonneg [of "array_values a" "array_values b"]
    by (simp add: np_sqrt_def)
qed

lemma diamT_inner_exact:
  assumes "\<forall>p\<in>set T. length (array_values p) = n" and "i < length T"
    and "\<forall>j\<in>set js. i < j \<and> j < length T"
    and "\<forall>i j. i < j \<and> j < length T \<longrightarrow> int64_exact (T ! i) (T ! j)"
  shows "\<exists>d. diamT_inner T i js diam = Inr d \<and> diam \<le> d \<and>
     (\<forall>j\<in>set js. sqrt (squared_distance (array_values (T ! i)) (array_values (T ! j))) \<le> d) \<and>
     (d = diam \<or> (\<exists>j\<in>set js. d = sqrt (squared_distance (array_values (T ! i)) (array_values (T ! j)))))"
  using assms(3)
proof (induction js arbitrary: diam)
  case Nil
  then show ?case by simp
next
  case (Cons j js)
  have j: "i < j" "j < length T"
    using Cons.prems by simp_all
  have l: "length (array_values (T ! i)) = n" "length (array_values (T ! j)) = n"
    using assms(1,2) j(2) by simp_all
  have ex: "int64_exact (T ! i) (T ! j)"
    using assms(4) j by blast
  define e where "e = sqrt (squared_distance (array_values (T ! i)) (array_values (T ! j)))"
  define diam' where "diam' = (if e > diam then e else diam)"
  have dv: "d_xixj (T ! i) (T ! j) = Inr (Fin e)"
    using d_xixj_exact [OF l ex] by (simp add: e_def)
  obtain d where d: "diamT_inner T i js diam' = Inr d" "diam' \<le> d"
    "\<forall>j\<in>set js. sqrt (squared_distance (array_values (T ! i)) (array_values (T ! j))) \<le> d"
    "d = diam' \<or> (\<exists>j\<in>set js. d = sqrt (squared_distance (array_values (T ! i)) (array_values (T ! j))))"
    using Cons.IH [of diam'] Cons.prems by auto
  have run: "diamT_inner T i (j # js) diam = Inr d"
    using dv d(1) by (simp add: diam'_def)
  have le: "diam \<le> d" "e \<le> d"
    using d(2) by (simp_all add: diam'_def split: if_splits)
  have "diam' = diam \<or> diam' = e"
    by (simp add: diam'_def)
  then have att: "d = diam \<or>
      (\<exists>j'\<in>set (j # js). d = sqrt (squared_distance (array_values (T ! i)) (array_values (T ! j'))))"
    using d(4) e_def by auto
  show ?case
    using run le d(3) att by (simp add: e_def)
qed

lemma diamT_outer_exact:
  assumes "\<forall>p\<in>set T. length (array_values p) = n" and "\<forall>i\<in>set is. i < length T"
    and "\<forall>i j. i < j \<and> j < length T \<longrightarrow> int64_exact (T ! i) (T ! j)"
  shows "\<exists>d. diamT_outer T is diam = Inr d \<and> diam \<le> d \<and>
     (\<forall>i\<in>set is. \<forall>j. i < j \<and> j < length T \<longrightarrow>
        sqrt (squared_distance (array_values (T ! i)) (array_values (T ! j))) \<le> d) \<and>
     (d = diam \<or> (\<exists>i j. i < j \<and> j < length T \<and>
        d = sqrt (squared_distance (array_values (T ! i)) (array_values (T ! j)))))"
  using assms(2)
proof (induction "is" arbitrary: diam)
  case Nil
  then show ?case by simp
next
  case (Cons i "is")
  have i: "i < length T"
    using Cons.prems by simp
  have js: "\<forall>j\<in>set [Suc i..<length T]. i < j \<and> j < length T"
    by simp
  obtain e where e: "diamT_inner T i [Suc i..<length T] diam = Inr e" "diam \<le> e"
    "\<forall>j\<in>set [Suc i..<length T].
       sqrt (squared_distance (array_values (T ! i)) (array_values (T ! j))) \<le> e"
    "e = diam \<or> (\<exists>j\<in>set [Suc i..<length T].
       e = sqrt (squared_distance (array_values (T ! i)) (array_values (T ! j))))"
    using diamT_inner_exact [OF assms(1) i js assms(3), of diam] by blast
  obtain d where d: "diamT_outer T is e = Inr d" "e \<le> d"
    "\<forall>i\<in>set is. \<forall>j. i < j \<and> j < length T \<longrightarrow>
       sqrt (squared_distance (array_values (T ! i)) (array_values (T ! j))) \<le> d"
    "d = e \<or> (\<exists>i j. i < j \<and> j < length T \<and>
       d = sqrt (squared_distance (array_values (T ! i)) (array_values (T ! j))))"
    using Cons.IH [of e] Cons.prems by auto
  have run: "diamT_outer T (i # is) diam = Inr d"
    using e(1) d(1) by simp
  have le: "diam \<le> d"
    using e(2) d(2) by simp
  have here: "\<forall>j. i < j \<and> j < length T \<longrightarrow>
      sqrt (squared_distance (array_values (T ! i)) (array_values (T ! j))) \<le> d"
  proof (intro allI impI)
    fix j assume "i < j \<and> j < length T"
    then have "j \<in> set [Suc i..<length T]"
      by simp
    then have "sqrt (squared_distance (array_values (T ! i)) (array_values (T ! j))) \<le> e"
      using e(3) by blast
    then show "sqrt (squared_distance (array_values (T ! i)) (array_values (T ! j))) \<le> d"
      using d(2) by simp
  qed
  have "e = diam \<or> (\<exists>j. i < j \<and> j < length T \<and>
      e = sqrt (squared_distance (array_values (T ! i)) (array_values (T ! j))))"
  proof (cases "e = diam")
    case True
    then show ?thesis by simp
  next
    case False
    then obtain j where j: "j \<in> set [Suc i..<length T]"
      "e = sqrt (squared_distance (array_values (T ! i)) (array_values (T ! j)))"
      using e(4) by blast
    from j(1) have "i < j \<and> j < length T"
      by simp
    with j(2) show ?thesis
      by blast
  qed
  then have att: "d = diam \<or> (\<exists>i j. i < j \<and> j < length T \<and>
      d = sqrt (squared_distance (array_values (T ! i)) (array_values (T ! j))))"
    using d(4) by blast
  show ?case
    using run le here d(3) att by simp
qed

text \<open>
  When no integer computation wraps, the cell computes the diameter of the points.
\<close>

lemma diamT_is_diameter:
  assumes "\<forall>p\<in>set T. length (array_values p) = n"
    and "\<forall>i j. i < j \<and> j < length T \<longrightarrow> int64_exact (T ! i) (T ! j)"
  shows "diamT T = Inr (diameter (map array_values T))"
proof -
  define P where "P = map array_values T"
  define S where "S = {sqrt (squared_distance (P ! i) (P ! j)) | i j. i < j \<and> j < length P}"
  have nth: "\<And>i. i < length T \<Longrightarrow> P ! i = array_values (T ! i)"
    by (simp add: P_def)
  have len: "length P = length T"
    by (simp add: P_def)
  have all: "\<forall>i\<in>set [0..<length T]. i < length T"
    by simp
  obtain d where d: "diamT T = Inr d" "0 \<le> d"
    "\<forall>i\<in>set [0..<length T]. \<forall>j. i < j \<and> j < length T \<longrightarrow>
       sqrt (squared_distance (array_values (T ! i)) (array_values (T ! j))) \<le> d"
    "d = 0 \<or> (\<exists>i j. i < j \<and> j < length T \<and>
       d = sqrt (squared_distance (array_values (T ! i)) (array_values (T ! j))))"
    using diamT_outer_exact [OF assms(1) all assms(2), of 0] unfolding diamT_def by blast
  have pair: "sqrt (squared_distance (P ! i) (P ! j)) \<le> d" if "i < j" "j < length P" for i j
  proof -
    have "i < length T" "j < length T"
      using that len by simp_all
    then have "P ! i = array_values (T ! i)" "P ! j = array_values (T ! j)"
      using nth by simp_all
    moreover have "sqrt (squared_distance (array_values (T ! i)) (array_values (T ! j))) \<le> d"
      using d(3) [rule_format, of i j] that len by simp
    ultimately show ?thesis
      by simp
  qed
  have ub: "s \<le> d" if "s \<in> insert 0 S" for s
  proof (cases "s = 0")
    case True
    then show ?thesis using d(2) by simp
  next
    case False
    with that have "s \<in> S"
      by simp
    then have "\<exists>i j. s = sqrt (squared_distance (P ! i) (P ! j)) \<and> i < j \<and> j < length P"
      unfolding S_def by (rule CollectD)
    then obtain i j where "s = sqrt (squared_distance (P ! i) (P ! j))" "i < j" "j < length P"
      by (elim exE conjE)
    then show ?thesis
      using pair [of i j] by simp
  qed
  have mem: "d \<in> insert 0 S"
  proof (cases "d = 0")
    case True
    then show ?thesis by simp
  next
    case False
    with d(4) have "\<exists>i j. i < j \<and> j < length T \<and>
       d = sqrt (squared_distance (array_values (T ! i)) (array_values (T ! j)))"
      by simp
    then obtain i j where ij: "i < j" "j < length T"
      "d = sqrt (squared_distance (array_values (T ! i)) (array_values (T ! j)))"
      by (elim exE conjE)
    have "P ! i = array_values (T ! i)" "P ! j = array_values (T ! j)"
      using nth ij(1,2) by simp_all
    then have "d = sqrt (squared_distance (P ! i) (P ! j)) \<and> i < j \<and> j < length P"
      using ij len by simp
    then have "d \<in> S"
      unfolding S_def by (intro CollectI exI)
    then show ?thesis
      by simp
  qed
  have "Max (insert 0 S) = d"
    using diameter_finite [of P] mem ub unfolding S_def by (intro Max_eqI) simp_all
  then show ?thesis
    using d(1) unfolding S_def P_def diameter_Max by simp
qed

text \<open>
  Where it wraps, the cell does not: on the points 4294967296 and 0 of the line, given
  as arrays of integers, the square of the difference is \<open>2\<^sup>6\<^sup>4\<close>, which wraps to 0;
  the cell returns 0, and the diameter is 4294967296.
\<close>

lemma diamT_wraps:
  "diamT [Int64 [4294967296], Int64 [0]] = Inr 0 \<and>
   diameter (map array_values [Int64 [4294967296], Int64 [0]]) = 4294967296"
  by (simp add: diamT_def d_xixj_def np_binop_def np_sqrt_def upt_rec diameter_def
      array_values_def squared_distance_def)

subsection \<open>The bound on the expected distance\<close>

text \<open>
  The square of a weighted mean is at most the weighted mean of the squares; so a
  point of \<open>T\<close> is no further from the target than the diameter, and the weighted
  mean of the squared distances from the points to the target is at most the square of
  the diameter.
\<close>

lemma weighted_square_mean:
  fixes w a :: "nat \<Rightarrow> real"
  assumes "\<And>i. i < m \<Longrightarrow> 0 \<le> w i" and "(\<Sum>i<m. w i) = 1"
  shows "(\<Sum>i<m. w i * a i) ^ 2 \<le> (\<Sum>i<m. w i * (a i) ^ 2)"
proof -
  define mu where "mu = (\<Sum>i<m. w i * a i)"
  have "0 \<le> (\<Sum>i<m. w i * (a i - mu) ^ 2)"
    using assms(1) by (intro sum_nonneg) simp
  also have "(\<Sum>i<m. w i * (a i - mu) ^ 2) =
      (\<Sum>i<m. w i * (a i) ^ 2 - 2 * mu * (w i * a i) + mu ^ 2 * w i)"
    by (intro sum.cong) (simp_all add: power2_diff algebra_simps)
  also have "\<dots> = (\<Sum>i<m. w i * (a i) ^ 2) - 2 * mu * (\<Sum>i<m. w i * a i) + mu ^ 2 * (\<Sum>i<m. w i)"
    by (simp add: sum.distrib sum_subtractf sum_distrib_left)
  also have "\<dots> = (\<Sum>i<m. w i * (a i) ^ 2) - mu ^ 2"
    using assms(2) by (simp add: mu_def [symmetric] power2_eq_square)
  finally show ?thesis
    by (simp add: mu_def)
qed

lemma point_to_mean_bound:
  fixes w :: "nat \<Rightarrow> real" and P :: "nat \<Rightarrow> nat \<Rightarrow> real" and x :: "nat \<Rightarrow> real"
  assumes wnn: "\<And>j. j < m \<Longrightarrow> 0 \<le> w j" and wsum: "(\<Sum>j<m. w j) = 1"
    and xc: "\<And>c. c < n \<Longrightarrow> x c = (\<Sum>j<m. w j * P j c)"
    and bound: "\<And>j. j < m \<Longrightarrow> (\<Sum>c<n. (P i c - P j c) ^ 2) \<le> D"
  shows "(\<Sum>c<n. (P i c - x c) ^ 2) \<le> D"
proof -
  have coord: "(P i c - x c) ^ 2 \<le> (\<Sum>j<m. w j * (P i c - P j c) ^ 2)" if c: "c < n" for c
  proof -
    have "(\<Sum>j<m. w j * (P i c - P j c)) = (\<Sum>j<m. w j * P i c) - (\<Sum>j<m. w j * P j c)"
      by (simp add: right_diff_distrib sum_subtractf)
    also have "(\<Sum>j<m. w j * P i c) = (\<Sum>j<m. w j) * P i c"
      by (simp add: sum_distrib_right)
    finally have "(\<Sum>j<m. w j * (P i c - P j c)) = (\<Sum>j<m. w j) * P i c - (\<Sum>j<m. w j * P j c)" .
    also have "\<dots> = P i c - x c"
      using wsum xc [OF c] by simp
    finally have "P i c - x c = (\<Sum>j<m. w j * (P i c - P j c))"
      by simp
    then show ?thesis
      using weighted_square_mean [of m w "\<lambda>j. P i c - P j c", OF wnn wsum] by simp
  qed
  have "(\<Sum>c<n. (P i c - x c) ^ 2) \<le> (\<Sum>c<n. \<Sum>j<m. w j * (P i c - P j c) ^ 2)"
    using coord by (intro sum_mono) simp
  also have "\<dots> = (\<Sum>j<m. w j * (\<Sum>c<n. (P i c - P j c) ^ 2))"
    by (subst sum.swap) (simp add: sum_distrib_left)
  also have "\<dots> \<le> (\<Sum>j<m. w j * D)"
    using wnn bound by (intro sum_mono mult_left_mono) simp_all
  also have "\<dots> = D"
    using wsum by (simp add: sum_distrib_right [symmetric])
  finally show ?thesis .
qed

lemma total_variance_bound:
  fixes w :: "nat \<Rightarrow> real" and P :: "nat \<Rightarrow> nat \<Rightarrow> real" and x :: "nat \<Rightarrow> real"
  assumes wnn: "\<And>j. j < m \<Longrightarrow> 0 \<le> w j" and wsum: "(\<Sum>j<m. w j) = 1"
    and xc: "\<And>c. c < n \<Longrightarrow> x c = (\<Sum>j<m. w j * P j c)"
    and bound: "\<And>i j. i < m \<Longrightarrow> j < m \<Longrightarrow> (\<Sum>c<n. (P i c - P j c) ^ 2) \<le> D"
  shows "(\<Sum>c<n. \<Sum>i<m. w i * (P i c - x c) ^ 2) \<le> D"
proof -
  have "(\<Sum>c<n. \<Sum>i<m. w i * (P i c - x c) ^ 2) = (\<Sum>i<m. w i * (\<Sum>c<n. (P i c - x c) ^ 2))"
    by (subst sum.swap) (simp add: sum_distrib_left)
  also have "\<dots> \<le> (\<Sum>i<m. w i * D)"
  proof (intro sum_mono mult_left_mono)
    fix i assume "i \<in> {..<m}"
    then have i: "i < m" by simp
    show "(\<Sum>c<n. (P i c - x c) ^ 2) \<le> D"
      using point_to_mean_bound [of m w n x P i D, OF wnn wsum xc bound [OF i]] by simp
    show "0 \<le> w i"
      using wnn i by simp
  qed
  also have "\<dots> = D"
    using wsum by (simp add: sum_distrib_right [symmetric])
  finally show ?thesis .
qed

lemma centred_sum:
  fixes xc :: real
  assumes "length vs = k" and "k \<ge> 1"
  shows "(xc - (\<Sum>v\<leftarrow>vs. v ! c) / real k) ^ 2 = (1 / (real k) ^ 2) * (\<Sum>v\<leftarrow>vs. v ! c - xc) ^ 2"
proof -
  have k: "real k \<noteq> 0"
    using assms(2) by simp
  have "(\<Sum>v\<leftarrow>vs. v ! c - xc) = (\<Sum>v\<leftarrow>vs. v ! c) - real k * xc"
    using assms(1) by (simp add: sum_list_subtractf sum_list_triv)
  then have "(1 / (real k) ^ 2) * (\<Sum>v\<leftarrow>vs. v ! c - xc) ^ 2 =
      (((\<Sum>v\<leftarrow>vs. v ! c) - real k * xc) / real k) ^ 2"
    by (simp add: power_divide)
  also have "((\<Sum>v\<leftarrow>vs. v ! c) - real k * xc) / real k = (\<Sum>v\<leftarrow>vs. v ! c) / real k - xc"
    using k by (simp add: diff_divide_distrib)
  finally show ?thesis
    by (simp add: power2_commute)
qed

text \<open>The bound, for points given by their values.\<close>

lemma expected_distance_bound:
  assumes "P \<noteq> []" and "\<forall>p\<in>set P. length p = n" and "length w = length P"
    and "\<forall>c\<in>set w. 0 \<le> c" and "sum_list w = 1" and "k \<ge> 1"
  shows "\<exists>x. construct_x n P w = Inr x \<and>
     (\<forall>vs. length vs = k \<and> set vs \<subseteq> set P \<longrightarrow>
        (\<exists>s. sample_from_distribution P x k vs = Inr (s, vs))) \<and>
     expectation P w k (\<lambda>vs. fst (projr (sample_from_distribution P x k vs)))
       \<le> (diameter P) ^ 2 / real k"
proof -
  define m where "m = length P"
  define d where "d = diameter P"
  define x where "x = map (\<lambda>c. \<Sum>i\<leftarrow>[0..<length P]. w ! i * P ! i ! c) [0..<n]"
  have cx: "construct_x n P w = Inr x"
    using construct_x_value [OF assms(2,3)] by (simp add: x_def)
  have lx: "length x = n"
    by (simp add: x_def)
  have xc: "x ! c = (\<Sum>j<m. w ! j * P ! j ! c)" if "c < n" for c
    using that by (simp add: x_def sum_list_upt_sum m_def)
  have wnn: "0 \<le> w ! j" if "j < m" for j
    using that assms(3,4) by (simp add: m_def)
  have wsum: "(\<Sum>j<m. w ! j) = 1"
    using assms(3,5) by (simp add: sum_list_nth_sum m_def)
  have bound: "(\<Sum>c<n. (P ! i ! c - P ! j ! c) ^ 2) \<le> d ^ 2" if "i < m" "j < m" for i j
  proof -
    have "length (P ! i) = n"
      using assms(2) that(1) by (simp add: m_def)
    then have "squared_distance (P ! i) (P ! j) = (\<Sum>c<n. (P ! i ! c - P ! j ! c) ^ 2)"
      by (simp add: squared_distance_def sum_list_upt_sum)
    moreover have "squared_distance (P ! i) (P ! j) \<le> d ^ 2"
      unfolding d_def using diameter_bound [OF assms(2), of i j] that by (simp add: m_def)
    ultimately show ?thesis
      by simp
  qed
  define V where "V c = (\<Sum>i<m. w ! i * (P ! i ! c - x ! c) ^ 2)" for c
  have total: "(\<Sum>c<n. V c) \<le> d ^ 2"
    unfolding V_def
    using total_variance_bound [of m "\<lambda>j. w ! j" n "\<lambda>c. x ! c" "\<lambda>j c. P ! j ! c" "d ^ 2",
        OF wnn wsum xc bound] by simp
  have val: "sample_from_distribution P x k vs =
     Inr (\<Sum>c\<leftarrow>[0..<n]. (1 / (real k) ^ 2) * (\<Sum>v\<leftarrow>vs. v ! c - x ! c) ^ 2, vs)"
    if "length vs = k" "set vs \<subseteq> set P" for vs
  proof -
    have "(\<Sum>c\<leftarrow>[0..<n]. (x ! c - (\<Sum>v\<leftarrow>vs. v ! c) / real k) ^ 2) =
        (\<Sum>c\<leftarrow>[0..<n]. (1 / (real k) ^ 2) * (\<Sum>v\<leftarrow>vs. v ! c - x ! c) ^ 2)"
      using centred_sum [OF that(1) assms(6)] by simp
    then show ?thesis
      using sample_from_distribution_value [OF assms(1,2) lx that(2), of k] by simp
  qed
  have zero: "(\<Sum>i<length P. w ! i * (P ! i ! c - x ! c)) = 0" if c: "c < n" for c
  proof -
    have "(\<Sum>i<m. w ! i * (P ! i ! c - x ! c)) = (\<Sum>i<m. w ! i * P ! i ! c) - (\<Sum>i<m. w ! i * x ! c)"
      by (simp add: right_diff_distrib sum_subtractf)
    also have "(\<Sum>i<m. w ! i * x ! c) = (\<Sum>i<m. w ! i) * x ! c"
      by (simp add: sum_distrib_right)
    finally show ?thesis
      using wsum xc [OF c] by (simp add: m_def)
  qed
  have each: "expectation P w k (\<lambda>vs. (\<Sum>v\<leftarrow>vs. v ! c - x ! c) ^ 2) = real k * V c" if c: "c < n" for c
    using expectation_sum_squared [OF assms(3,5), of "\<lambda>v. v ! c - x ! c" k] zero [OF c]
    by (simp add: V_def m_def)
  have "expectation P w k (\<lambda>vs. fst (projr (sample_from_distribution P x k vs))) =
      expectation P w k (\<lambda>vs. \<Sum>c\<leftarrow>[0..<n]. (1 / (real k) ^ 2) * (\<Sum>v\<leftarrow>vs. v ! c - x ! c) ^ 2)"
    by (intro expectation_cong) (simp add: val)
  also have "\<dots> = (\<Sum>c\<leftarrow>[0..<n]. (1 / (real k) ^ 2) * expectation P w k (\<lambda>vs. (\<Sum>v\<leftarrow>vs. v ! c - x ! c) ^ 2))"
    unfolding expectation_sum_list expectation_cmult ..
  also have "\<dots> = (\<Sum>c<n. (1 / (real k) ^ 2) * expectation P w k (\<lambda>vs. (\<Sum>v\<leftarrow>vs. v ! c - x ! c) ^ 2))"
    by (rule sum_list_upt_sum)
  also have "\<dots> = (\<Sum>c<n. (1 / (real k) ^ 2) * (real k * V c))"
    using each by (intro sum.cong) simp_all
  also have "\<dots> = (1 / real k) * (\<Sum>c<n. V c)"
    using assms(6) by (simp add: sum_distrib_left power2_eq_square)
  also have "\<dots> \<le> (1 / real k) * d ^ 2"
    using total assms(6) by (intro mult_left_mono) simp_all
  finally have E: "expectation P w k (\<lambda>vs. fst (projr (sample_from_distribution P x k vs)))
      \<le> (diameter P) ^ 2 / real k"
    by (simp add: d_def)
  have "\<forall>vs. length vs = k \<and> set vs \<subseteq> set P \<longrightarrow>
        (\<exists>s. sample_from_distribution P x k vs = Inr (s, vs))"
    using val by blast
  then show ?thesis
    using cx E by blast
qed

text \<open>
  Claim C2: for points \<open>T\<close> of \<open>n\<close> coordinates each (arrays of integers or of
  floats), weights \<open>w\<close> that are not negative and sum to 1, the target \<open>x\<close> that the
  worksheet constructs from them and every \<open>k\<close> of at least 1, the expectation of
  the distance that \<^verbatim>\<open>sample_from_distribution\<close> returns, over \<open>k\<close> independent
  draws from \<open>T\<close> with the probabilities \<open>w\<close>, is at most the square of the diameter
  of \<open>T\<close> divided by \<open>k\<close>, the diameter being the largest Euclidean distance
  between two points of \<open>T\<close>. No draw of \<open>k\<close> points of \<open>T\<close> makes
  \<^verbatim>\<open>sample_from_distribution\<close> raise, so the expectation is over its results. The
  cell \<^verbatim>\<open>diamT\<close> returns that diameter whenever its integer arithmetic is exact.
\<close>

theorem C2_expected_distance_bound:
  assumes "T \<noteq> []" and "\<forall>p\<in>set T. length (array_values p) = n" and "length w = length T"
    and "\<forall>c\<in>set w. 0 \<le> c" and "sum_list w = 1" and "k \<ge> 1"
  shows "\<exists>x. construct_x n (map array_values T) w = Inr x \<and>
     (\<forall>vs. length vs = k \<and> set vs \<subseteq> set (map array_values T) \<longrightarrow>
        (\<exists>s. sample_from_distribution (map array_values T) x k vs = Inr (s, vs))) \<and>
     expectation (map array_values T) w k
         (\<lambda>vs. fst (projr (sample_from_distribution (map array_values T) x k vs)))
       \<le> (diameter (map array_values T)) ^ 2 / real k \<and>
     ((\<forall>i j. i < j \<and> j < length T \<longrightarrow> int64_exact (T ! i) (T ! j)) \<longrightarrow>
        diamT T = Inr (diameter (map array_values T)))"
proof -
  have a1: "map array_values T \<noteq> []"
    using assms(1) by simp
  have a2: "\<forall>p\<in>set (map array_values T). length p = n"
    using assms(2) by simp
  have a3: "length w = length (map array_values T)"
    using assms(3) by simp
  obtain x where x: "construct_x n (map array_values T) w = Inr x"
    "\<forall>vs. length vs = k \<and> set vs \<subseteq> set (map array_values T) \<longrightarrow>
        (\<exists>s. sample_from_distribution (map array_values T) x k vs = Inr (s, vs))"
    "expectation (map array_values T) w k
         (\<lambda>vs. fst (projr (sample_from_distribution (map array_values T) x k vs)))
       \<le> (diameter (map array_values T)) ^ 2 / real k"
    using expected_distance_bound [OF a1 a2 a3 assms(4,5,6)] by blast
  have "(\<forall>i j. i < j \<and> j < length T \<longrightarrow> int64_exact (T ! i) (T ! j)) \<longrightarrow>
        diamT T = Inr (diameter (map array_values T))"
    using diamT_is_diameter [OF assms(2)] by blast
  with x show ?thesis
    by blast
qed

text \<open>
  The points 0 and 1 on the line, as arrays of integers, with weights 1/2 and 1/2 and
  \<open>k = 2\<close>: the target is 1/2, the diameter is 1 and the cell \<^verbatim>\<open>diamT\<close> returns it,
  and the expectation is 1/8, below 1/2.
\<close>

theorem C2_expected_distance_bound_witness:
  "construct_x 1 (map array_values [Int64 [0], Int64 [1]]) [1 / 2, 1 / 2] = Inr [1 / 2] \<and>
   diameter (map array_values [Int64 [0], Int64 [1]]) = 1 \<and>
   diamT [Int64 [0], Int64 [1]] = Inr 1 \<and>
   expectation (map array_values [Int64 [0], Int64 [1]]) [1 / 2, 1 / 2] 2
     (\<lambda>vs. fst (projr (sample_from_distribution (map array_values [Int64 [0], Int64 [1]])
                          [1 / 2] 2 vs))) = 1 / 8 \<and>
   expectation (map array_values [Int64 [0], Int64 [1]]) [1 / 2, 1 / 2] 2
     (\<lambda>vs. fst (projr (sample_from_distribution (map array_values [Int64 [0], Int64 [1]])
                          [1 / 2] 2 vs))) \<le> 1 ^ 2 / real 2"
proof -
  have vals: "map array_values [Int64 [0], Int64 [1]] = [[0], [1]]"
    by (simp add: array_values_def)
  have cx: "construct_x 1 [[0], [1]] [1 / 2, 1 / 2] = Inr [1 / 2]"
    by (simp add: construct_x_def np_binop_def upt_rec)
  have dm: "diameter [[0], [1]] = 1"
    by (simp add: diameter_def squared_distance_def upt_rec)
  have ev: "expectation [[0], [1]] [1 / 2, 1 / 2] 2
     (\<lambda>vs. fst (projr (sample_from_distribution [[0], [1]] [1 / 2] 2 vs))) = 1 / 8"
    by (simp add: numeral_2_eq_2 sample_from_distribution_def np_binop_def upt_rec
        power2_eq_square)
  have exact: "\<forall>i j. i < j \<and> j < length [Int64 [0], Int64 [1]] \<longrightarrow>
      int64_exact ([Int64 [0], Int64 [1]] ! i) ([Int64 [0], Int64 [1]] ! j)"
    by (auto simp: int64_exact_def less_Suc_eq)
  have lens: "\<forall>p\<in>set [Int64 [0], Int64 [1]]. length (array_values p) = 1"
    by (simp add: array_values_def)
  obtain x where x: "construct_x 1 (map array_values [Int64 [0], Int64 [1]]) [1 / 2, 1 / 2] = Inr x"
    "expectation (map array_values [Int64 [0], Int64 [1]]) [1 / 2, 1 / 2] 2
         (\<lambda>vs. fst (projr (sample_from_distribution (map array_values [Int64 [0], Int64 [1]]) x 2 vs)))
       \<le> (diameter (map array_values [Int64 [0], Int64 [1]])) ^ 2 / real 2"
    "diamT [Int64 [0], Int64 [1]] = Inr (diameter (map array_values [Int64 [0], Int64 [1]]))"
    using C2_expected_distance_bound [of "[Int64 [0], Int64 [1]]" 1 "[1 / 2, 1 / 2]" 2] lens exact by auto
  have "x = [1 / 2]"
    using x(1) cx vals by simp
  then show ?thesis
    using x(2,3) cx dm ev vals by simp
qed

end
